theory Spec2Isabelle
  imports Complex_Main "HOL-Library.Word"
begin

unbundle bit_operations_syntax

section \<open>JavaScript numbers\<close>

text \<open>
  Every coordinate, size and metric of \<^verbatim>\<open>glyph.js\<close> and \<^verbatim>\<open>path.js\<close> is a JavaScript
  Number, that is an IEEE 754 binary64 value. A finite double is modelled by the rational
  number it denotes: \<open>Fin q\<close>, where \<open>Fin 0\<close> is the zero \<open>+0\<close>. The negative zero \<open>-0\<close>,
  the two infinities and NaN are values of their own.

  Arithmetic is the exact operation on the rationals followed by \<open>round_double\<close>,
  rounding to the nearest double, ties to the even significand, with gradual underflow
  below \<open>2\<^sup>-\<^sup>1\<^sup>0\<^sup>2\<^sup>2\<close> and overflow to infinity from \<open>2\<^sup>1\<^sup>0\<^sup>2\<^sup>4 - 2\<^sup>9\<^sup>7\<^sup>0\<close> on.
  The type has a value \<open>Fin q\<close> for every rational \<open>q\<close>, also for those that are not
  doubles; the operations never produce one of these from doubles, and the theorems
  below hold for them as well.
\<close>

datatype jsnum = Fin rat | NZero | PInf | NInf | NaN

text \<open>\<open>ndigits b n\<close> is the number of digits of \<open>n\<close> in base \<open>b\<close> (0 for \<open>n \<le> 0\<close>).\<close>

function ndigits :: "int \<Rightarrow> int \<Rightarrow> nat" where
  "ndigits b n = (if n \<le> 0 \<or> b < 2 then 0 else Suc (ndigits b (n div b)))"
  by pat_completeness auto
termination
  by (relation "measure (\<lambda>(b, n). nat n)") (auto simp: int_div_less_self)

declare ndigits.simps [simp del]

text \<open>For \<open>q > 0\<close>, \<open>scale_exp b q\<close> is the integer \<open>e\<close> with \<open>b\<^sup>e \<le> q < b\<^sup>e\<^sup>+\<^sup>1\<close>.\<close>

definition scale_exp :: "int \<Rightarrow> rat \<Rightarrow> int" where
  "scale_exp b q =
     (if 1 \<le> q then int (ndigits b \<lfloor>q\<rfloor>) - 1
      else - int (ndigits b (\<lceil>1 / q\<rceil> - 1)))"

definition round_half_even :: "rat \<Rightarrow> int" where
  "round_half_even r =
     (let f = \<lfloor>r\<rfloor>; d = r - of_int f
      in if d < 1 / 2 then f else if 1 / 2 < d then f + 1
         else if even f then f else f + 1)"

definition round_pos :: "rat \<Rightarrow> jsnum" where
  "round_pos q =
     (let e = max (scale_exp 2 q) (- 1022);
          u = 2 powi (e - 52);
          r = of_int (round_half_even (q / u)) * u
      in if 2 powi 1024 \<le> r then PInf else Fin r)"

text \<open>The unary minus flips the sign, also that of a zero.\<close>

fun jneg :: "jsnum \<Rightarrow> jsnum" where
  "jneg (Fin a) = (if a = 0 then NZero else Fin (- a))"
| "jneg NZero = Fin 0"
| "jneg PInf = NInf"
| "jneg NInf = PInf"
| "jneg NaN = NaN"

text \<open>A negative value that is rounded to zero becomes \<open>-0\<close>.\<close>

definition round_double :: "rat \<Rightarrow> jsnum" where
  "round_double q =
     (if q = 0 then Fin 0 else if q < 0 then jneg (round_pos (- q)) else round_pos q)"

text \<open>
  The value of a finite number (0 for both zeros), the tests for a zero and for an
  infinity, and the sign, which the two zeros have as well.
\<close>

fun val :: "jsnum \<Rightarrow> rat" where
  "val (Fin a) = a"
| "val _ = 0"

fun is_zero :: "jsnum \<Rightarrow> bool" where
  "is_zero (Fin a) = (a = 0)"
| "is_zero NZero = True"
| "is_zero _ = False"

fun is_inf :: "jsnum \<Rightarrow> bool" where
  "is_inf PInf = True"
| "is_inf NInf = True"
| "is_inf _ = False"

fun is_neg :: "jsnum \<Rightarrow> bool" where
  "is_neg (Fin a) = (a < 0)"
| "is_neg NZero = True"
| "is_neg NInf = True"
| "is_neg _ = False"

definition zero_of :: "bool \<Rightarrow> jsnum" where
  "zero_of neg = (if neg then NZero else Fin 0)"

definition inf_of :: "bool \<Rightarrow> jsnum" where
  "inf_of neg = (if neg then NInf else PInf)"

text \<open>
  \<open>a + b\<close>: the sum of two zeros is \<open>-0\<close> only when both are; every other exact sum 0
  is \<open>+0\<close>.
\<close>

fun jadd :: "jsnum \<Rightarrow> jsnum \<Rightarrow> jsnum" where
  "jadd NaN _ = NaN"
| "jadd _ NaN = NaN"
| "jadd PInf NInf = NaN"
| "jadd NInf PInf = NaN"
| "jadd PInf _ = PInf"
| "jadd _ PInf = PInf"
| "jadd NInf _ = NInf"
| "jadd _ NInf = NInf"
| "jadd NZero NZero = NZero"
| "jadd a b = round_double (val a + val b)"

text \<open>\<open>a - b\<close> is \<open>a + (-b)\<close>, as the language defines it.\<close>

definition jsub :: "jsnum \<Rightarrow> jsnum \<Rightarrow> jsnum" where
  "jsub a b = jadd a (jneg b)"

text \<open>
  \<open>a * b\<close> and \<open>a / b\<close>: the sign of an infinite or zero result is negative exactly when
  the signs of the operands differ.
\<close>

definition jmul :: "jsnum \<Rightarrow> jsnum \<Rightarrow> jsnum" where
  "jmul a b =
     (if a = NaN \<or> b = NaN then NaN
      else if (is_inf a \<and> is_zero b) \<or> (is_zero a \<and> is_inf b) then NaN
      else if is_inf a \<or> is_inf b then inf_of (is_neg a \<noteq> is_neg b)
      else if is_zero a \<or> is_zero b then zero_of (is_neg a \<noteq> is_neg b)
      else round_double (val a * val b))"

definition jdiv :: "jsnum \<Rightarrow> jsnum \<Rightarrow> jsnum" where
  "jdiv a b =
     (if a = NaN \<or> b = NaN then NaN
      else if (is_inf a \<and> is_inf b) \<or> (is_zero a \<and> is_zero b) then NaN
      else if is_inf a \<or> is_zero b then inf_of (is_neg a \<noteq> is_neg b)
      else if is_inf b \<or> is_zero a then zero_of (is_neg a \<noteq> is_neg b)
      else round_double (val a / val b))"

text \<open>
  The relational operator \<open><\<close>: every comparison with NaN is false, and the two zeros
  compare as equal.
\<close>

fun jlt :: "jsnum \<Rightarrow> jsnum \<Rightarrow> bool" where
  "jlt NaN _ = False"
| "jlt _ NaN = False"
| "jlt PInf _ = False"
| "jlt _ NInf = False"
| "jlt NInf _ = True"
| "jlt _ PInf = True"
| "jlt a b = (val a < val b)"

text \<open>\<open>a >= b\<close>.\<close>

definition jge :: "jsnum \<Rightarrow> jsnum \<Rightarrow> bool" where
  "jge a b = (a \<noteq> NaN \<and> b \<noteq> NaN \<and> \<not> jlt a b)"

text \<open>\<open>a === b\<close> on numbers: NaN is not equal to itself, and \<open>+0\<close> is equal to \<open>-0\<close>.\<close>

definition strict_eq :: "jsnum \<Rightarrow> jsnum \<Rightarrow> bool" where
  "strict_eq a b = (a \<noteq> NaN \<and> b \<noteq> NaN \<and> (a = b \<or> (is_zero a \<and> is_zero b)))"

text \<open>
  \<open>Math.round\<close>: the nearest integer, a tie going up; \<open>-0\<close> for a value from \<open>-0.5\<close> up
  to \<open>-0\<close>. For a double the result \<open>\<lfloor>x + 1/2\<rfloor>\<close> is a double again, so no rounding
  step follows.
\<close>

fun Math_round :: "jsnum \<Rightarrow> jsnum" where
  "Math_round (Fin q) =
     (if q < 0 \<and> - (1 / 2) \<le> q then NZero else Fin (of_int \<lfloor>q + 1 / 2\<rfloor>))"
| "Math_round x = x"

text \<open>
  \<open>Math.min.apply(null, xs)\<close> and \<open>Math.max.apply(null, xs)\<close>: the running extreme
  starts at \<open>+\<infinity>\<close> (at \<open>-\<infinity>\<close> for the maximum), a NaN among the arguments makes the
  result NaN, and \<open>-0\<close> counts as less than \<open>+0\<close>. (An engine's bound on the number of
  arguments of \<open>apply\<close> is not modelled.)
\<close>

definition min_step :: "jsnum \<Rightarrow> jsnum \<Rightarrow> jsnum" where
  "min_step lowest n =
     (if lowest = NaN \<or> n = NaN then NaN
      else if jlt n lowest \<or> (n = NZero \<and> lowest = Fin 0) then n else lowest)"

definition max_step :: "jsnum \<Rightarrow> jsnum \<Rightarrow> jsnum" where
  "max_step highest n =
     (if highest = NaN \<or> n = NaN then NaN
      else if jlt highest n \<or> (n = Fin 0 \<and> highest = NZero) then n else highest)"

definition Math_min :: "jsnum list \<Rightarrow> jsnum" where
  "Math_min xs = foldl min_step PInf xs"

definition Math_max :: "jsnum list \<Rightarrow> jsnum" where
  "Math_max xs = foldl max_step NInf xs"

subsection \<open>Numbers to strings\<close>

text \<open>
  Strings are lists of characters; a \<open>char\<close> stands for a UTF-16 code unit below 256.
\<close>

definition digit_char :: "nat \<Rightarrow> char" where
  "digit_char d = ''0123456789'' ! d"

text \<open>The decimal digits of an integer \<open>n \<ge> 0\<close>.\<close>

function digits_of :: "int \<Rightarrow> string" where
  "digits_of n =
     (if n < 10 then [digit_char (nat n)]
      else digits_of (n div 10) @ [digit_char (nat (n mod 10))])"
  by pat_completeness auto
termination
  by (relation "measure nat") auto

declare digits_of.simps [simp del]

text \<open>For \<open>q > 0\<close>, \<open>dec_exp q\<close> is the integer \<open>n\<close> with \<open>10\<^sup>n\<^sup>-\<^sup>1 \<le> q < 10\<^sup>n\<close>.\<close>

definition dec_exp :: "rat \<Rightarrow> int" where
  "dec_exp q = scale_exp 10 q + 1"

text \<open>
  \<open>Number::toString\<close> prints the shortest decimal \<open>s \<times> 10\<^sup>n\<^sup>-\<^sup>k\<close> (with \<open>k\<close> digits
  \<open>s\<close>) that reads back as the same double; of several such decimals with \<open>k\<close> digits
  it takes the one nearest to the double. \<open>shortest fuel k q\<close> searches \<open>k, k + 1, \<dots>\<close>;
  at each length only the two \<open>k\<close>-digit decimals around \<open>q\<close> can qualify, and a
  \<open>k\<close>-digit decimal that is \<open>q\<close> itself is taken at once. Seventeen
  digits identify every double, so that with fuel 17 the last equation, which cuts \<open>q\<close>
  off after \<open>k\<close> digits, is not reached for a double.
\<close>

fun shortest :: "nat \<Rightarrow> nat \<Rightarrow> rat \<Rightarrow> rat" where
  "shortest 0 k q = (let sc = 10 powi (dec_exp q - int k) in of_int \<lfloor>q / sc\<rfloor> * sc)"
| "shortest (Suc fuel) k q =
     (let sc = 10 powi (dec_exp q - int k);
          lo = of_int \<lfloor>q / sc\<rfloor> * sc;
          hi = lo + sc
      in if lo = q then q
         else if round_double lo = Fin q \<and> round_double hi = Fin q then
           (if q - lo < hi - q then lo
            else if hi - q < q - lo then hi
            else if even \<lfloor>q / sc\<rfloor> then lo else hi)
         else if round_double lo = Fin q then lo
         else if round_double hi = Fin q then hi
         else shortest fuel (Suc k) q)"

definition strip_zeros :: "string \<Rightarrow> string" where
  "strip_zeros ds = rev (dropWhile (\<lambda>c. c = CHR ''0'') (rev ds))"

text \<open>
  The layout of the decimal \<open>v = s \<times> 10\<^sup>n\<^sup>-\<^sup>k\<close>. The first case is \<open>k \<le> n \<le> 21\<close> of the
  language definition: \<open>k \<le> n\<close> says that \<open>v\<close> is an integer, and the digits of \<open>s\<close>
  followed by \<open>n - k\<close> zeros are the digits of that integer.
\<close>

definition format_pos :: "rat \<Rightarrow> string" where
  "format_pos v =
     (if of_int \<lfloor>v\<rfloor> = v \<and> v < 10 ^ 21 then digits_of \<lfloor>v\<rfloor>
      else
        let n = dec_exp v;
            ds = strip_zeros (digits_of \<lfloor>v * 10 powi (18 - n)\<rfloor>);
            k = int (length ds)
        in if 0 < n \<and> n \<le> 21 then take (nat n) ds @ ''.'' @ drop (nat n) ds
           else if - 6 < n \<and> n \<le> 0 then ''0.'' @ replicate (nat (- n)) (CHR ''0'') @ ds
           else
             let ex = ''e'' @ (if n - 1 < 0 then ''-'' else ''+'') @ digits_of \<bar>n - 1\<bar>
             in if k = 1 then ds @ ex else [hd ds] @ ''.'' @ tl ds @ ex)"

fun number_to_string :: "jsnum \<Rightarrow> string" where
  "number_to_string NaN = ''NaN''"
| "number_to_string NZero = ''0''"
| "number_to_string PInf = ''Infinity''"
| "number_to_string NInf = ''-Infinity''"
| "number_to_string (Fin q) =
     (if q = 0 then ''0''
      else if q < 0 then ''-'' @ format_pos (shortest 17 1 (- q))
      else format_pos (shortest 17 1 q))"

datatype error = TypeError | RangeError | Error string

text \<open>
  \<open>Number.prototype.toFixed\<close> with an integer argument \<open>f\<close>: a RangeError outside
  \<open>0 \<dots> 100\<close> (the check comes first; the bound was 20 before ECMAScript 2018), then the
  integer \<open>n\<close> with \<open>n / 10\<^sup>f\<close> nearest to the value (the larger one of two), printed with
  \<open>f\<close> digits after the point, \<open>-0\<close> as \<open>+0\<close>. From \<open>10\<^sup>2\<^sup>1\<close> on, and for NaN and the
  infinities, the value is printed as \<open>Number::toString\<close> prints it.
\<close>

definition fixed_digits :: "nat \<Rightarrow> rat \<Rightarrow> string" where
  "fixed_digits f a =
     (let n = \<lfloor>a * 10 ^ f + 1 / 2\<rfloor>;
          m = digits_of n
      in if f = 0 then m
         else
           let m' = replicate (f + 1 - length m) (CHR ''0'') @ m
           in take (length m' - f) m' @ ''.'' @ drop (length m' - f) m')"

definition toFixed :: "int \<Rightarrow> jsnum \<Rightarrow> error + string" where
  "toFixed f x =
     (if f < 0 \<or> 100 < f then Inl RangeError
      else case x of
        Fin q \<Rightarrow>
          Inr ((if q < 0 then ''-'' else '''') @
               (if 10 ^ 21 \<le> \<bar>q\<bar> then number_to_string (Fin \<bar>q\<bar>)
                else fixed_digits (nat f) \<bar>q\<bar>))
      | NZero \<Rightarrow> Inr (fixed_digits (nat f) 0)
      | _ \<Rightarrow> Inr (number_to_string x))"

subsection \<open>Strings to numbers, and the bitwise \<open>&\<close>\<close>

definition is_ws :: "char \<Rightarrow> bool" where
  "is_ws c = (c \<in> set [CHR 0x09, CHR 0x0A, CHR 0x0B, CHR 0x0C, CHR 0x0D, CHR 0x20, CHR 0xA0])"

definition trim :: "string \<Rightarrow> string" where
  "trim s = rev (dropWhile is_ws (rev (dropWhile is_ws s)))"

definition digit_val :: "char \<Rightarrow> nat" where
  "digit_val c =
     (if c \<in> set ''0123456789'' then length (takeWhile (\<lambda>d. d \<noteq> c) ''0123456789'')
      else if c \<in> set ''abcdef'' then 10 + length (takeWhile (\<lambda>d. d \<noteq> c) ''abcdef'')
      else 10 + length (takeWhile (\<lambda>d. d \<noteq> c) ''ABCDEF''))"

definition is_digit :: "nat \<Rightarrow> char \<Rightarrow> bool" where
  "is_digit radix c = (c \<in> set ''0123456789abcdefABCDEF'' \<and> digit_val c < radix)"

definition digits_val :: "nat \<Rightarrow> string \<Rightarrow> int" where
  "digits_val radix ds = foldl (\<lambda>a c. a * int radix + int (digit_val c)) 0 ds"

text \<open>\<open>0x\<close>, \<open>0o\<close> and \<open>0b\<close> literals: at least one digit, and digits only.\<close>

definition radix_literal :: "nat \<Rightarrow> string \<Rightarrow> jsnum" where
  "radix_literal radix ds =
     (if ds \<noteq> [] \<and> list_all (is_digit radix) ds then round_double (of_int (digits_val radix ds))
      else NaN)"

text \<open>
  An unsigned decimal literal: \<open>Infinity\<close>, or digits with an optional fraction and an
  optional exponent, at least one digit before or after the point.
\<close>

definition exponent_part :: "string \<Rightarrow> int option" where
  "exponent_part r =
     (if r = [] then Some 0
      else if hd r = CHR ''e'' \<or> hd r = CHR ''E'' then
        (let r1 = tl r;
             neg = (r1 \<noteq> [] \<and> hd r1 = CHR ''-'');
             r2 = (if r1 \<noteq> [] \<and> (hd r1 = CHR ''+'' \<or> hd r1 = CHR ''-'') then tl r1 else r1)
         in if r2 \<noteq> [] \<and> list_all (is_digit 10) r2
            then Some (if neg then - digits_val 10 r2 else digits_val 10 r2)
            else None)
      else None)"

definition unsigned_decimal :: "string \<Rightarrow> jsnum" where
  "unsigned_decimal s =
     (if s = ''Infinity'' then PInf
      else
        let ip = takeWhile (is_digit 10) s;
            r1 = dropWhile (is_digit 10) s;
            dot = (r1 \<noteq> [] \<and> hd r1 = CHR ''.'');
            fp = (if dot then takeWhile (is_digit 10) (tl r1) else []);
            r2 = (if dot then dropWhile (is_digit 10) (tl r1) else r1)
        in if ip = [] \<and> fp = [] then NaN
           else case exponent_part r2 of
             None \<Rightarrow> NaN
           | Some e \<Rightarrow>
               round_double (of_int (digits_val 10 (ip @ fp)) / 10 ^ length fp * 10 powi e))"

text \<open>\<open>ToNumber\<close> of a string.\<close>

definition string_to_number :: "string \<Rightarrow> jsnum" where
  "string_to_number s0 =
     (let s = trim s0
      in if s = [] then Fin 0
         else if take 2 s = ''0x'' \<or> take 2 s = ''0X'' then radix_literal 16 (drop 2 s)
         else if take 2 s = ''0o'' \<or> take 2 s = ''0O'' then radix_literal 8 (drop 2 s)
         else if take 2 s = ''0b'' \<or> take 2 s = ''0B'' then radix_literal 2 (drop 2 s)
         else if hd s = CHR ''+'' then unsigned_decimal (tl s)
         else if hd s = CHR ''-'' then jneg (unsigned_decimal (tl s))
         else unsigned_decimal s)"

text \<open>\<open>ToInt32\<close>: NaN, the infinities and \<open>-0\<close> give 0, a finite value is cut off towards
  zero and taken modulo \<open>2\<^sup>3\<^sup>2\<close>.\<close>

fun to_int32 :: "jsnum \<Rightarrow> 32 word" where
  "to_int32 (Fin q) = word_of_int (if 0 \<le> q then \<lfloor>q\<rfloor> else \<lceil>q\<rceil>)"
| "to_int32 _ = 0"

section \<open>Paths (\<^verbatim>\<open>path.js\<close>)\<close>

text \<open>
  A path command is an object with a \<open>type\<close> tag and the coordinate fields of that type, as
  \<open>moveTo\<close>, \<open>lineTo\<close>, \<open>curveTo\<close>, \<open>quadTo\<close> and \<open>close\<close> build them. The arguments of the
  constructors follow the order of the fields in the object literals:
  \<open>Cmd_C x1 y1 x2 y2 x y\<close> and \<open>Cmd_Q x1 y1 x y\<close>. These five types are the commands
  of this development: an object of another type, which only a caller who fills
  \<open>commands\<close> by hand or through \<open>extend\<close> can put there, is not among them.
\<close>

datatype command =
    Cmd_M jsnum jsnum
  | Cmd_L jsnum jsnum
  | Cmd_C jsnum jsnum jsnum jsnum jsnum jsnum
  | Cmd_Q jsnum jsnum jsnum jsnum
  | Cmd_Z

fun cmd_type :: "command \<Rightarrow> char" where
  "cmd_type (Cmd_M x y) = CHR ''M''"
| "cmd_type (Cmd_L x y) = CHR ''L''"
| "cmd_type (Cmd_C x1 y1 x2 y2 x y) = CHR ''C''"
| "cmd_type (Cmd_Q x1 y1 x y) = CHR ''Q''"
| "cmd_type Cmd_Z = CHR ''Z''"

text \<open>\<open>fill\<close> and \<open>stroke\<close> hold a colour string or \<open>null\<close> (\<open>None\<close>).\<close>

record path =
  commands :: "command list"
  fill :: "string option"
  stroke :: "string option"
  strokeWidth :: jsnum

definition Path :: path where
  "Path = \<lparr>commands = [], fill = Some ''black'', stroke = None, strokeWidth = Fin 1\<rparr>"

definition moveTo :: "jsnum \<Rightarrow> jsnum \<Rightarrow> path \<Rightarrow> path" where
  "moveTo x y p = p\<lparr>commands := commands p @ [Cmd_M x y]\<rparr>"

definition lineTo :: "jsnum \<Rightarrow> jsnum \<Rightarrow> path \<Rightarrow> path" where
  "lineTo x y p = p\<lparr>commands := commands p @ [Cmd_L x y]\<rparr>"

definition curveTo :: "jsnum \<Rightarrow> jsnum \<Rightarrow> jsnum \<Rightarrow> jsnum \<Rightarrow> jsnum \<Rightarrow> jsnum \<Rightarrow> path \<Rightarrow> path" where
  "curveTo x1 y1 x2 y2 x y p = p\<lparr>commands := commands p @ [Cmd_C x1 y1 x2 y2 x y]\<rparr>"

definition quadraticCurveTo :: "jsnum \<Rightarrow> jsnum \<Rightarrow> jsnum \<Rightarrow> jsnum \<Rightarrow> path \<Rightarrow> path" where
  "quadraticCurveTo x1 y1 x y p = p\<lparr>commands := commands p @ [Cmd_Q x1 y1 x y]\<rparr>"

definition closePath :: "path \<Rightarrow> path" where
  "closePath p = p\<lparr>commands := commands p @ [Cmd_Z]\<rparr>"

text \<open>The truth value of a string or \<open>null\<close>: \<open>null\<close> and the empty string are false.\<close>

definition truthy :: "string option \<Rightarrow> bool" where
  "truthy v = (case v of None \<Rightarrow> False | Some s \<Rightarrow> s \<noteq> [])"

subsection \<open>\<open>Path.prototype.draw\<close>\<close>

text \<open>
  The drawing context is whatever the caller passes in. What \<open>draw\<close> does to it is a
  sequence of method calls and property assignments; a context is modelled by its reaction
  \<open>ctx :: ctx_call \<Rightarrow> 's \<Rightarrow> 's\<close> to each of them, on a state \<open>'s\<close> of its own.
\<close>

datatype ctx_call =
    BeginPath
  | MoveTo jsnum jsnum
  | LineTo jsnum jsnum
  | BezierCurveTo jsnum jsnum jsnum jsnum jsnum jsnum
  | QuadraticCurveTo jsnum jsnum jsnum jsnum
  | ClosePath
  | Set_fillStyle string
  | Fill
  | Set_strokeStyle string
  | Set_lineWidth jsnum
  | Stroke

fun draw_commands :: "(ctx_call \<Rightarrow> 's \<Rightarrow> 's) \<Rightarrow> command list \<Rightarrow> 's \<Rightarrow> 's" where
  "draw_commands ctx [] s = s"
| "draw_commands ctx (Cmd_M x y # cmds) s = draw_commands ctx cmds (ctx (MoveTo x y) s)"
| "draw_commands ctx (Cmd_L x y # cmds) s = draw_commands ctx cmds (ctx (LineTo x y) s)"
| "draw_commands ctx (Cmd_C x1 y1 x2 y2 x y # cmds) s =
     draw_commands ctx cmds (ctx (BezierCurveTo x1 y1 x2 y2 x y) s)"
| "draw_commands ctx (Cmd_Q x1 y1 x y # cmds) s =
     draw_commands ctx cmds (ctx (QuadraticCurveTo x1 y1 x y) s)"
| "draw_commands ctx (Cmd_Z # cmds) s = draw_commands ctx cmds (ctx ClosePath s)"

definition draw :: "(ctx_call \<Rightarrow> 's \<Rightarrow> 's) \<Rightarrow> path \<Rightarrow> 's \<Rightarrow> 's" where
  "draw ctx p s0 =
     (let s1 = ctx BeginPath s0;
          s2 = draw_commands ctx (commands p) s1;
          s3 = (if truthy (fill p) then ctx Fill (ctx (Set_fillStyle (the (fill p))) s2) else s2)
      in if truthy (stroke p)
         then ctx Stroke (ctx (Set_lineWidth (strokeWidth p)) (ctx (Set_strokeStyle (the (stroke p))) s3))
         else s3)"

subsection \<open>\<open>Path.prototype.toPathData\<close>\<close>

text \<open>\<open>decimalPlaces\<close> is an integer or \<open>undefined\<close> (\<open>None\<close>).\<close>

definition floatToString :: "int \<Rightarrow> jsnum \<Rightarrow> error + string" where
  "floatToString decimalPlaces v =
     (if strict_eq (Math_round v) v then Inr (number_to_string (Math_round v))
      else toFixed decimalPlaces v)"

text \<open>The loop of \<open>packValues\<close> over \<open>arguments\<close>, from index \<open>i\<close> on, with the string \<open>s\<close> built so far.\<close>

fun packValues_loop :: "int \<Rightarrow> jsnum list \<Rightarrow> nat \<Rightarrow> string \<Rightarrow> error + string" where
  "packValues_loop dp [] i s = Inr s"
| "packValues_loop dp (v # vs) i s =
     (let s1 = (if jge v (Fin 0) \<and> 0 < i then s @ '' '' else s)
      in case floatToString dp v of
           Inl e \<Rightarrow> Inl e
         | Inr t \<Rightarrow> packValues_loop dp vs (i + 1) (s1 @ t))"

definition packValues :: "int \<Rightarrow> jsnum list \<Rightarrow> error + string" where
  "packValues dp arguments = packValues_loop dp arguments 0 ''''"

fun cmd_data :: "int \<Rightarrow> command \<Rightarrow> error + string" where
  "cmd_data dp (Cmd_M x y) = map_sum id (\<lambda>t. ''M'' @ t) (packValues dp [x, y])"
| "cmd_data dp (Cmd_L x y) = map_sum id (\<lambda>t. ''L'' @ t) (packValues dp [x, y])"
| "cmd_data dp (Cmd_C x1 y1 x2 y2 x y) =
     map_sum id (\<lambda>t. ''C'' @ t) (packValues dp [x1, y1, x2, y2, x, y])"
| "cmd_data dp (Cmd_Q x1 y1 x y) = map_sum id (\<lambda>t. ''Q'' @ t) (packValues dp [x1, y1, x, y])"
| "cmd_data dp Cmd_Z = Inr ''Z''"

fun toPathData_loop :: "int \<Rightarrow> command list \<Rightarrow> string \<Rightarrow> error + string" where
  "toPathData_loop dp [] d = Inr d"
| "toPathData_loop dp (cmd # cmds) d =
     (case cmd_data dp cmd of
        Inl e \<Rightarrow> Inl e
      | Inr t \<Rightarrow> toPathData_loop dp cmds (d @ t))"

definition toPathData :: "int option \<Rightarrow> path \<Rightarrow> error + string" where
  "toPathData decimalPlaces p =
     (let dp = (case decimalPlaces of Some n \<Rightarrow> n | None \<Rightarrow> 2)
      in toPathData_loop dp (commands p) '''')"

subsection \<open>\<open>Path.prototype.toSVG\<close>\<close>

text \<open>
  The condition \<open>this.fill & this.fill !== 'black'\<close> is the bitwise \<open>&\<close> of \<open>this.fill\<close> and
  of the comparison (\<open>!==\<close> binds tighter than \<open>&\<close>): both sides go through \<open>ToInt32\<close>,
  and the result counts as true when it is not 0.
\<close>

definition fill_to_number :: "string option \<Rightarrow> jsnum" where
  "fill_to_number v = (case v of None \<Rightarrow> Fin 0 | Some s \<Rightarrow> string_to_number s)"

definition toSVG :: "int option \<Rightarrow> path \<Rightarrow> error + string" where
  \<open>toSVG decimalPlaces p =
     (case toPathData decimalPlaces p of
        Inl e \<Rightarrow> Inl e
      | Inr d \<Rightarrow>
          let svg0 = ''<path d="'' @ d @ ''"'';
              svg1 =
                (if (to_int32 (fill_to_number (fill p)) AND
                      (if fill p \<noteq> Some ''black'' then 1 else 0)) \<noteq> 0
                 then (if fill p = None then svg0 @ '' fill="none"''
                       else svg0 @ '' fill="'' @ the (fill p) @ ''"'')
                 else svg0);
              svg2 =
                (if truthy (stroke p)
                 then svg1 @ '' stroke="'' @ the (stroke p) @ ''" stroke-width="'' @
                      number_to_string (strokeWidth p) @ ''"''
                 else svg1)
          in Inr (svg2 @ ''/>''))\<close>

section \<open>Glyphs (\<^verbatim>\<open>glyph.js\<close>)\<close>

record font =
  unitsPerEm :: jsnum

record point =
  pt_x :: jsnum
  pt_y :: jsnum
  onCurve :: bool
  lastPointOfContour :: bool

text \<open>
  The fields that the constructor sets, and \<open>points\<close>, which the TrueType loader adds
  to a glyph afterwards (\<open>None\<close> is \<open>undefined\<close>). An entry of \<open>unicodes\<close> can be
  \<open>undefined\<close> too.
\<close>

record glyph =
  font :: "font option"
  index :: nat
  name :: "string option"
  unicode :: "nat option"
  unicodes :: "nat option list"
  glyph_xMin :: jsnum
  glyph_yMin :: jsnum
  glyph_xMax :: jsnum
  glyph_yMax :: jsnum
  advanceWidth :: jsnum
  path :: "path option"
  points :: "point list option"

text \<open>The \<open>options\<close> object of the constructor; \<open>None\<close> is a property that is not there.\<close>

record options =
  opt_font :: "font option"
  opt_index :: "nat option"
  opt_name :: "string option"
  opt_unicode :: "nat option"
  opt_unicodes :: "nat list option"
  opt_xMin :: "jsnum option"
  opt_yMin :: "jsnum option"
  opt_xMax :: "jsnum option"
  opt_yMax :: "jsnum option"
  opt_advanceWidth :: "jsnum option"
  opt_path :: "path option"

text \<open>\<open>v || 0\<close> on a number or \<open>undefined\<close>: the two zeros and NaN are false.\<close>

definition num_or_zero :: "jsnum option \<Rightarrow> jsnum" where
  "num_or_zero v = (case v of None \<Rightarrow> Fin 0 | Some n \<Rightarrow> if is_zero n \<or> n = NaN then Fin 0 else n)"

text \<open>
  In the initialiser of \<open>unicodes\<close> the conditional operator binds weaker than \<open>||\<close>: the
  condition is \<open>options.unicodes || options.unicode !== undefined\<close>, and an array is true
  whatever it holds.
\<close>

definition Glyph :: "options \<Rightarrow> glyph" where
  "Glyph opts =
     \<lparr>font = opt_font opts,
      index = (case opt_index opts of None \<Rightarrow> 0 | Some i \<Rightarrow> i),
      name = (if truthy (opt_name opts) then opt_name opts else None),
      unicode = (case opt_unicode opts of None \<Rightarrow> None | Some u \<Rightarrow> if u = 0 then None else Some u),
      unicodes =
        (if opt_unicodes opts \<noteq> None \<or> opt_unicode opts \<noteq> None then [opt_unicode opts] else []),
      glyph_xMin = num_or_zero (opt_xMin opts),
      glyph_yMin = num_or_zero (opt_yMin opts),
      glyph_xMax = num_or_zero (opt_xMax opts),
      glyph_yMax = num_or_zero (opt_yMax opts),
      advanceWidth = num_or_zero (opt_advanceWidth opts),
      path = opt_path opts,
      points = None\<rparr>"

subsection \<open>\<open>Glyph.prototype.getPath\<close>\<close>

fun getPath_loop :: "jsnum \<Rightarrow> jsnum \<Rightarrow> jsnum \<Rightarrow> command list \<Rightarrow> path \<Rightarrow> path" where
  "getPath_loop x y scale [] p = p"
| "getPath_loop x y scale (Cmd_M cx cy # cmds) p =
     getPath_loop x y scale cmds
       (moveTo (jadd x (jmul cx scale)) (jadd y (jmul (jneg cy) scale)) p)"
| "getPath_loop x y scale (Cmd_L cx cy # cmds) p =
     getPath_loop x y scale cmds
       (lineTo (jadd x (jmul cx scale)) (jadd y (jmul (jneg cy) scale)) p)"
| "getPath_loop x y scale (Cmd_Q cx1 cy1 cx cy # cmds) p =
     getPath_loop x y scale cmds
       (quadraticCurveTo (jadd x (jmul cx1 scale)) (jadd y (jmul (jneg cy1) scale))
                         (jadd x (jmul cx scale)) (jadd y (jmul (jneg cy) scale)) p)"
| "getPath_loop x y scale (Cmd_C cx1 cy1 cx2 cy2 cx cy # cmds) p =
     getPath_loop x y scale cmds
       (curveTo (jadd x (jmul cx1 scale)) (jadd y (jmul (jneg cy1) scale))
                (jadd x (jmul cx2 scale)) (jadd y (jmul (jneg cy2) scale))
                (jadd x (jmul cx scale)) (jadd y (jmul (jneg cy) scale)) p)"
| "getPath_loop x y scale (Cmd_Z # cmds) p = getPath_loop x y scale cmds (closePath p)"

text \<open>
  \<open>this.font.unitsPerEm\<close> and \<open>this.path.commands\<close> throw a TypeError when the glyph has
  no font or no path (the constructor defaults both to \<open>null\<close>).
\<close>

definition getPath :: "jsnum option \<Rightarrow> jsnum option \<Rightarrow> jsnum option \<Rightarrow> glyph \<Rightarrow> error + path" where
  "getPath x0 y0 fontSize0 g =
     (let x = (case x0 of Some v \<Rightarrow> v | None \<Rightarrow> Fin 0);
          y = (case y0 of Some v \<Rightarrow> v | None \<Rightarrow> Fin 0);
          fontSize = (case fontSize0 of Some v \<Rightarrow> v | None \<Rightarrow> Fin 72)
      in case font g of
           None \<Rightarrow> Inl TypeError
         | Some f \<Rightarrow>
             (let scale = jmul (jdiv (Fin 1) (unitsPerEm f)) fontSize
              in (case path g of
                    None \<Rightarrow> Inl TypeError
                  | Some gp \<Rightarrow> Inr (getPath_loop x y scale (commands gp) Path))))"

subsection \<open>\<open>Glyph.prototype.getContours\<close>\<close>

text \<open>
  Modelled from the spec: \<open>check.argument\<close> of \<^verbatim>\<open>check.js\<close>, which is not among the
  sources. The specification asks that leftover points \<open>raise a fatal, unrecoverable
  error\<close>, \<open>a descriptive failure\<close>: the call throws an error carrying the message when the
  condition is false and does nothing otherwise.
\<close>

definition check_argument :: "bool \<Rightarrow> string \<Rightarrow> error + unit" where
  "check_argument predicate message = (if predicate then Inr () else Inl (Error message))"

fun getContours_loop ::
  "point list \<Rightarrow> point list list \<Rightarrow> point list \<Rightarrow> point list list \<times> point list" where
  "getContours_loop [] contours currentContour = (contours, currentContour)"
| "getContours_loop (pt # pts) contours currentContour =
     (let currentContour1 = currentContour @ [pt]
      in if lastPointOfContour pt
         then getContours_loop pts (contours @ [currentContour1]) []
         else getContours_loop pts contours currentContour1)"

definition getContours :: "glyph \<Rightarrow> error + point list list" where
  "getContours g =
     (case points g of
        None \<Rightarrow> Inr []
      | Some pts \<Rightarrow>
          (let (contours, currentContour) = getContours_loop pts [] []
           in (case check_argument (length currentContour = 0)
                      ''There are still points left in the current contour.'' of
                 Inl e \<Rightarrow> Inl e
               | Inr _ \<Rightarrow> Inr contours)))"

subsection \<open>\<open>Glyph.prototype.getMetrics\<close>\<close>

record metrics =
  xMin :: jsnum
  yMin :: jsnum
  xMax :: jsnum
  yMax :: jsnum
  leftSideBearing :: jsnum
  rightSideBearing :: jsnum

text \<open>
  One round of the loop: the three \<open>if\<close> statements on \<open>cmd.type\<close>, taken together for
  each type, push \<open>x\<close>, then \<open>x1\<close>, then \<open>x2\<close>.
\<close>

fun getMetrics_loop :: "command list \<Rightarrow> jsnum list \<Rightarrow> jsnum list \<Rightarrow> jsnum list \<times> jsnum list" where
  "getMetrics_loop [] xCoords yCoords = (xCoords, yCoords)"
| "getMetrics_loop (Cmd_M x y # cmds) xCoords yCoords =
     getMetrics_loop cmds (xCoords @ [x]) (yCoords @ [y])"
| "getMetrics_loop (Cmd_L x y # cmds) xCoords yCoords =
     getMetrics_loop cmds (xCoords @ [x]) (yCoords @ [y])"
| "getMetrics_loop (Cmd_Q x1 y1 x y # cmds) xCoords yCoords =
     getMetrics_loop cmds (xCoords @ [x] @ [x1]) (yCoords @ [y] @ [y1])"
| "getMetrics_loop (Cmd_C x1 y1 x2 y2 x y # cmds) xCoords yCoords =
     getMetrics_loop cmds (xCoords @ [x] @ [x1] @ [x2]) (yCoords @ [y] @ [y1] @ [y2])"
| "getMetrics_loop (Cmd_Z # cmds) xCoords yCoords = getMetrics_loop cmds xCoords yCoords"

definition getMetrics :: "glyph \<Rightarrow> error + metrics" where
  "getMetrics g =
     (case path g of
        None \<Rightarrow> Inl TypeError
      | Some gp \<Rightarrow>
          let (xCoords, yCoords) = getMetrics_loop (commands gp) [] [];
              m = \<lparr>xMin = Math_min xCoords,
                   yMin = Math_min yCoords,
                   xMax = Math_max xCoords,
                   yMax = Math_max yCoords,
                   leftSideBearing = Fin 0,
                   rightSideBearing = NaN\<rparr>
          in Inr (m\<lparr>rightSideBearing :=
                      jsub (jsub (advanceWidth g) (leftSideBearing m)) (jsub (xMax m) (xMin m))\<rparr>))"

section \<open>Notions of the specification\<close>

text \<open>
  The definitions of this section are not translations of code: they say, in the words of
  the specification, what the theorems below compare the code with.
\<close>



text \<open>
  The values that the metrics collect from a command: the endpoint of every command but
  Close, the first control point of Quad and Cubic, the second one of Cubic.
\<close>

fun cmd_xs :: "command \<Rightarrow> jsnum list" where
  "cmd_xs (Cmd_M x y) = [x]"
| "cmd_xs (Cmd_L x y) = [x]"
| "cmd_xs (Cmd_Q x1 y1 x y) = [x, x1]"
| "cmd_xs (Cmd_C x1 y1 x2 y2 x y) = [x, x1, x2]"
| "cmd_xs Cmd_Z = []"

fun cmd_ys :: "command \<Rightarrow> jsnum list" where
  "cmd_ys (Cmd_M x y) = [y]"
| "cmd_ys (Cmd_L x y) = [y]"
| "cmd_ys (Cmd_Q x1 y1 x y) = [y, y1]"
| "cmd_ys (Cmd_C x1 y1 x2 y2 x y) = [y, y1, y2]"
| "cmd_ys Cmd_Z = []"

text \<open>The primitive call that replays a command, and the whole call sequence of a path.\<close>

fun cmd_call :: "command \<Rightarrow> ctx_call" where
  "cmd_call (Cmd_M x y) = MoveTo x y"
| "cmd_call (Cmd_L x y) = LineTo x y"
| "cmd_call (Cmd_C x1 y1 x2 y2 x y) = BezierCurveTo x1 y1 x2 y2 x y"
| "cmd_call (Cmd_Q x1 y1 x y) = QuadraticCurveTo x1 y1 x y"
| "cmd_call Cmd_Z = ClosePath"

definition draw_calls :: "path \<Rightarrow> ctx_call list" where
  "draw_calls p =
     [BeginPath] @ map cmd_call (commands p) @
     (if truthy (fill p) then [Set_fillStyle (the (fill p)), Fill] else []) @
     (if truthy (stroke p)
      then [Set_strokeStyle (the (stroke p)), Set_lineWidth (strokeWidth p), Stroke] else [])"

text \<open>A context that reacts as \<open>ctx\<close> does and keeps, next to its state, the calls it received.\<close>

definition recording ::
  "(ctx_call \<Rightarrow> 's \<Rightarrow> 's) \<Rightarrow> ctx_call \<Rightarrow> 's \<times> ctx_call list \<Rightarrow> 's \<times> ctx_call list" where
  "recording ctx c = (\<lambda>(s, calls). (ctx c s, calls @ [c]))"

subsection \<open>Example inputs\<close>

definition no_options :: options where
  "no_options =
     \<lparr>opt_font = None, opt_index = None, opt_name = None, opt_unicode = None,
      opt_unicodes = None, opt_xMin = None, opt_yMin = None, opt_xMax = None,
      opt_yMax = None, opt_advanceWidth = None, opt_path = None\<rparr>"

text \<open>The stored point \<open>(500, 300)\<close> in a font of 1000 units per em.\<close>

definition point_glyph :: glyph where
  "point_glyph =
     Glyph (no_options\<lparr>opt_font := Some \<lparr>unitsPerEm = Fin 1000\<rparr>,
                       opt_path := Some (moveTo (Fin 500) (Fin 300) Path)\<rparr>)"

text \<open>The outline \<open>Move(0,0), Line(10,0), Line(10,10), Line(0,10), Close\<close>, advance width 12.\<close>

definition square_glyph :: glyph where
  "square_glyph =
     Glyph (no_options\<lparr>opt_advanceWidth := Some (Fin 12),
                       opt_path := Some (closePath (lineTo (Fin 0) (Fin 10) (lineTo (Fin 10) (Fin 10)
                                     (lineTo (Fin 10) (Fin 0) (moveTo (Fin 0) (Fin 0) Path)))))\<rparr>)"

text \<open>A glyph whose path has no command.\<close>

definition empty_glyph :: glyph where
  "empty_glyph = Glyph (no_options\<lparr>opt_path := Some Path\<rparr>)"

text \<open>Three points in two contours, and the same list with the last flag missing.\<close>

definition three_points :: "point list" where
  "three_points =
     [\<lparr>pt_x = Fin 0, pt_y = Fin 0, onCurve = True, lastPointOfContour = False\<rparr>,
      \<lparr>pt_x = Fin 1, pt_y = Fin 0, onCurve = True, lastPointOfContour = True\<rparr>,
      \<lparr>pt_x = Fin 2, pt_y = Fin 2, onCurve = False, lastPointOfContour = True\<rparr>]"

definition open_points :: "point list" where
  "open_points =
     [\<lparr>pt_x = Fin 0, pt_y = Fin 0, onCurve = True, lastPointOfContour = True\<rparr>,
      \<lparr>pt_x = Fin 1, pt_y = Fin 0, onCurve = True, lastPointOfContour = False\<rparr>]"

text \<open>Decimal digits, and strings of at least one decimal digit.\<close>

definition dec_digit :: "char \<Rightarrow> bool" where
  "dec_digit c = (c \<in> set ''0123456789'')"

definition digit_string :: "string \<Rightarrow> bool" where
  "digit_string s = (s \<noteq> [] \<and> list_all dec_digit s)"

text \<open>The mantissa of the exponent notation: one digit, or a digit, a point and more digits.\<close>

definition mantissa :: "string \<Rightarrow> bool" where
  "mantissa m =
     (case m of [] \<Rightarrow> False
      | c # r \<Rightarrow> dec_digit c \<and> (r = [] \<or> (hd r = CHR ''.'' \<and> digit_string (tl r))))"


text \<open>
  The coordinates of a command in the order in which \<open>toPathData\<close> prints them, the number
  of decimal places in force, the text printed for one coordinate, the packed coordinate
  list of one command (a space before a value exactly when the value is non-negative and
  not the first one), and the path data of a command list: each command's letter,
  followed at once by its packed coordinates.
\<close>

fun cmd_values :: "command \<Rightarrow> jsnum list" where
  "cmd_values (Cmd_M x y) = [x, y]"
| "cmd_values (Cmd_L x y) = [x, y]"
| "cmd_values (Cmd_C x1 y1 x2 y2 x y) = [x1, y1, x2, y2, x, y]"
| "cmd_values (Cmd_Q x1 y1 x y) = [x1, y1, x, y]"
| "cmd_values Cmd_Z = []"

definition places :: "int option \<Rightarrow> int" where
  "places decimalPlaces = (case decimalPlaces of Some n \<Rightarrow> n | None \<Rightarrow> 2)"

definition coord_text :: "int \<Rightarrow> jsnum \<Rightarrow> string" where
  "coord_text dp v = (case floatToString dp v of Inr t \<Rightarrow> t | Inl e \<Rightarrow> [])"

definition pack_text :: "int \<Rightarrow> jsnum list \<Rightarrow> string" where
  "pack_text dp vs =
     concat (map (\<lambda>(i, v). (if jge v (Fin 0) \<and> 0 < i then '' '' else []) @ coord_text dp v)
                 (enumerate 0 vs))"

definition path_text :: "int \<Rightarrow> command list \<Rightarrow> string" where
  "path_text dp cmds = concat (map (\<lambda>cmd. cmd_type cmd # pack_text dp (cmd_values cmd)) cmds)"


text \<open>
  A path with whole, negative and fractional coordinates, one with a huge coordinate, one
  with the whole number \<open>2\<^sup>6\<^sup>9\<close>, and one with the coordinates that are not finite or \<open>-0\<close>.
\<close>

definition data_path :: path where
  "data_path =
     closePath (quadraticCurveTo (Fin (- 1)) (Fin (- 1)) (Fin 2) (Fin (3 / 2))
       (lineTo (Fin 3) (Fin 0) (moveTo (Fin 1) (Fin (- 2)) Path)))"

definition huge_path :: path where
  "huge_path = moveTo (Fin (15 * 10 ^ 20)) (Fin 0) Path"

definition big_path :: path where
  "big_path = moveTo (Fin (2 ^ 69)) (Fin 0) Path"

definition special_path :: path where
  "special_path = lineTo PInf NInf (moveTo NaN NZero Path)"

section \<open>Properties of the number model\<close>

lemma ndigits_bounds:
  "0 < n \<Longrightarrow> 2 \<le> b \<Longrightarrow> b ^ (ndigits b n - 1) \<le> n \<and> n < b ^ ndigits b n"
proof (induction b n rule: ndigits.induct)
  case (1 b n)
  have split: "n = b * (n div b) + n mod b" "0 \<le> n mod b" "n mod b < b"
    using 1(3) by simp_all
  show ?case
  proof (cases "n div b = 0")
    case True
    with 1 have "n < b"
      by (auto simp: zdiv_eq_0_iff)
    with 1 True show ?thesis
      by (simp add: ndigits.simps[of b n] ndigits.simps[of b 0])
  next
    case False
    moreover have "0 \<le> n div b"
      using 1(2,3) by (simp add: pos_imp_zdiv_nonneg_iff)
    ultimately have pos: "0 < n div b"
      by linarith
    let ?d = "ndigits b (n div b)"
    from 1 pos have ih: "b ^ (?d - 1) \<le> n div b" "n div b < b ^ ?d"
      by auto
    have dpos: "0 < ?d"
      using pos 1(3) by (simp add: ndigits.simps[of b "n div b"])
    have nd: "ndigits b n = Suc ?d"
      using 1 by (simp add: ndigits.simps[of b n])
    have pw: "b * b ^ (?d - 1) = b ^ ?d"
      using dpos by (cases ?d) auto
    have "b * b ^ (?d - 1) \<le> b * (n div b)"
      using ih(1) 1(3) by (intro mult_left_mono) auto
    then have lower: "b ^ ?d \<le> n"
      using split pw by linarith
    have "n div b + 1 \<le> b ^ ?d"
      using ih(2) by linarith
    then have "b * (n div b + 1) \<le> b * b ^ ?d"
      using 1(3) by (intro mult_left_mono) auto
    moreover have "b * (n div b + 1) = b * (n div b) + b"
      by (simp add: algebra_simps)
    then have "n < b * (n div b + 1)"
      using split by linarith
    ultimately have upper: "n < b ^ Suc ?d"
      by simp
    show ?thesis
      using lower upper nd by simp
  qed
qed

lemma scale_exp_bounds:
  assumes "0 < q" "2 \<le> b"
  shows "of_int b powi scale_exp b q \<le> q \<and> q < of_int b powi (scale_exp b q + 1)"
proof (cases "1 \<le> q")
  case True
  let ?n = "\<lfloor>q\<rfloor>"
  let ?d = "ndigits b ?n"
  have npos: "0 < ?n" using True by simp
  from ndigits_bounds[OF npos assms(2)] have b: "b ^ (?d - 1) \<le> ?n" "?n < b ^ ?d"
    by auto
  have dpos: "0 < ?d"
    using npos assms(2) by (simp add: ndigits.simps[of b ?n])
  have se: "scale_exp b q = int ?d - 1"
    using True by (simp add: scale_exp_def)
  have "of_int (b ^ (?d - 1)) \<le> (of_int ?n :: rat)"
    using b(1) by (simp only: of_int_le_iff)
  then have "(of_int b :: rat) ^ (?d - 1) \<le> q"
    by (simp add: le_floor_iff)
  moreover have "q < of_int (b ^ ?d)"
    using b(2) by (simp add: floor_less_iff)
  moreover have "(of_int b :: rat) powi (int ?d - 1) = of_int b ^ (?d - 1)"
    using dpos by (simp add: power_int_def nat_diff_distrib')
  moreover have "(of_int b :: rat) powi (int ?d - 1 + 1) = of_int b ^ ?d"
    by (simp add: power_int_def)
  ultimately show ?thesis
    using se by simp
next
  case False
  let ?c = "\<lceil>1 / q\<rceil>"
  let ?d = "ndigits b (?c - 1)"
  have q1: "q < 1" using False by simp
  have inv: "1 < 1 / q" using assms(1) q1 by simp
  have cpos: "0 < ?c - 1"
    using inv by (simp add: less_ceiling_iff)
  from ndigits_bounds[OF cpos assms(2)] have b: "b ^ (?d - 1) \<le> ?c - 1" "?c - 1 < b ^ ?d"
    by auto
  have dpos: "0 < ?d"
    using cpos assms(2) by (simp add: ndigits.simps[of b "?c - 1"])
  have se: "scale_exp b q = - int ?d"
    using False by (simp add: scale_exp_def)
  have bpos: "0 < (of_int b :: rat)" using assms(2) by simp
  have "?c \<le> b ^ ?d" using b(2) by linarith
  then have "(of_int ?c :: rat) \<le> of_int (b ^ ?d)"
    by (simp only: of_int_le_iff)
  moreover have "1 / q \<le> of_int ?c"
    by (rule le_of_int_ceiling)
  ultimately have "1 / q \<le> of_int (b ^ ?d)"
    by (rule order_trans[rotated])
  then have up: "1 / q \<le> of_int b ^ ?d"
    by (simp only: of_int_power)
  have "of_int (b ^ (?d - 1)) \<le> (of_int (?c - 1) :: rat)"
    using b(1) by (simp only: of_int_le_iff)
  moreover have "of_int (?c - 1) < 1 / q"
    using ceiling_correct[of "1 / q"] by simp
  ultimately have lo: "of_int b ^ (?d - 1) < 1 / q"
    by simp
  have p1: "(of_int b :: rat) powi (- int ?d) = 1 / of_int b ^ ?d"
    by (simp add: power_int_def field_simps)
  have p2: "(of_int b :: rat) powi (- int ?d + 1) = 1 / of_int b ^ (?d - 1)"
    using dpos bpos by (cases ?d) (simp_all add: power_int_def field_simps nat_diff_distrib')
  have "1 / of_int b ^ ?d \<le> q"
    using up assms(1) bpos by (simp add: field_simps)
  moreover have "q < 1 / of_int b ^ (?d - 1)"
    using lo assms(1) bpos by (simp add: field_simps)
  ultimately show ?thesis
    using se p1 p2 by simp
qed

lemma scale_exp_unique:
  assumes "0 < q" "2 \<le> b" "of_int b powi e \<le> q" "q < of_int b powi (e + 1)"
  shows "scale_exp b q = e"
proof -
  let ?s = "scale_exp b q"
  have b1: "1 < (of_int b :: rat)" using assms(2) by simp
  from scale_exp_bounds[OF assms(1,2)]
  have s: "of_int b powi ?s \<le> q" "q < of_int b powi (?s + 1)" by auto
  have "\<not> e + 1 \<le> ?s"
  proof
    assume "e + 1 \<le> ?s"
    then have "(of_int b :: rat) powi (e + 1) \<le> of_int b powi ?s"
      using b1 by (simp add: power_int_increasing)
    with s(1) assms(4) show False by simp
  qed
  moreover have "\<not> ?s + 1 \<le> e"
  proof
    assume "?s + 1 \<le> e"
    then have "(of_int b :: rat) powi (?s + 1) \<le> of_int b powi e"
      using b1 by (simp add: power_int_increasing)
    with s(2) assms(3) show False by simp
  qed
  ultimately show ?thesis by simp
qed

lemma round_half_even_near:
  assumes "\<bar>r - of_int m\<bar> < 1 / 2"
  shows "round_half_even r = m"
proof (cases "of_int m \<le> r")
  case True
  with assms have "\<lfloor>r\<rfloor> = m"
    by (intro floor_unique) auto
  with assms True show ?thesis
    by (simp add: round_half_even_def Let_def)
next
  case False
  with assms have f: "\<lfloor>r\<rfloor> = m - 1"
    by (intro floor_unique) auto
  have "1 / 2 < r - of_int (m - 1)"
    using assms False by simp
  with f show ?thesis
    by (simp add: round_half_even_def Let_def)
qed

lemma floor_rat_numeral_divide [simp]:
  "\<lfloor>numeral a / numeral b :: rat\<rfloor> = numeral a div numeral b"
  using floor_divide_of_int_eq[of "numeral a" "numeral b", where ?'a = rat] by simp

lemma round_pos_eval:
  assumes "0 < q" "2 powi e \<le> q \<or> e = - 1022" "q < 2 powi (e + 1)" "- 1022 \<le> e"
    and "round_half_even (q / 2 powi (e - 52)) = m"
    and "of_int m * 2 powi (e - 52) < (2::rat) powi 1024"
  shows "round_pos q = Fin (of_int m * 2 powi (e - 52))"
proof -
  have sb: "2 powi scale_exp 2 q \<le> q" "q < 2 powi (scale_exp 2 q + 1)"
    using scale_exp_bounds[of q 2] assms(1) by auto
  have e: "max (scale_exp 2 q) (- 1022) = e"
  proof (cases "2 powi e \<le> q")
    case True
    then have "scale_exp 2 q = e"
      using scale_exp_unique[of q 2 e] assms(1,3) by simp
    with assms(4) show ?thesis by simp
  next
    case False
    with assms(2) have e: "e = - 1022" by simp
    have "\<not> e + 1 \<le> scale_exp 2 q"
    proof
      assume "e + 1 \<le> scale_exp 2 q"
      then have "(2::rat) powi (e + 1) \<le> 2 powi scale_exp 2 q"
        by (simp add: power_int_increasing)
      with sb(1) assms(3) show False by simp
    qed
    with e show ?thesis by simp
  qed
  with assms(5,6) show ?thesis
    by (simp add: round_pos_def Let_def)
qed

lemma round_pos_near:
  assumes "0 < q" "2 powi e \<le> q \<or> e = - 1022" "q < 2 powi (e + 1)" "- 1022 \<le> e"
    and "\<bar>q - of_int m * 2 powi (e - 52)\<bar> < 2 powi (e - 53)"
    and "of_int m * 2 powi (e - 52) < (2::rat) powi 1024"
  shows "round_pos q = Fin (of_int m * 2 powi (e - 52))"
proof -
  let ?u = "(2::rat) powi (e - 52)"
  have upos: "0 < ?u" by simp
  have half: "(2::rat) powi (e - 53) = ?u / 2"
    by (simp add: power_int_diff)
  have "\<bar>q / ?u - of_int m\<bar> = \<bar>q - of_int m * ?u\<bar> / ?u"
    using upos by (simp add: field_simps abs_divide)
  also have "\<dots> < (?u / 2) / ?u"
    using assms(5) half upos by (simp add: divide_strict_right_mono)
  also have "\<dots> = 1 / 2"
    using upos by simp
  finally have "round_half_even (q / ?u) = m"
    by (rule round_half_even_near)
  with assms show ?thesis
    by (intro round_pos_eval)
qed

lemma round_double_eval:
  assumes "0 < q" "2 powi e \<le> q \<or> e = - 1022" "q < 2 powi (e + 1)" "- 1022 \<le> e"
    and "round_half_even (q / 2 powi (e - 52)) = m"
    and "of_int m * 2 powi (e - 52) < (2::rat) powi 1024"
  shows "round_double q = Fin (of_int m * 2 powi (e - 52))"
    and "m \<noteq> 0 \<Longrightarrow> round_double (- q) = Fin (- (of_int m * 2 powi (e - 52)))"
  using round_pos_eval[OF assms] assms(1) by (simp_all add: round_double_def)

lemmas rd_simps = power_int_def power_one_over round_half_even_def Let_def

lemma jneg_jneg [simp]: "jneg (jneg a) = a"
  by (cases a) simp_all

lemma round_double_minus: "q \<noteq> 0 \<Longrightarrow> round_double (- q) = jneg (round_double q)"
  by (simp add: round_double_def)

lemma round_double_int:
  assumes "\<bar>n\<bar> < 2 ^ 53"
  shows "round_double (of_int n) = Fin (of_int n)"
proof -
  have pos: "round_double (of_int k) = Fin (of_int k)" if k: "0 < k" "k < 2 ^ 53" for k :: int
  proof -
    let ?q = "of_int k :: rat"
    let ?e = "scale_exp 2 ?q"
    have q: "0 < ?q" using k by simp
    from scale_exp_bounds[of ?q 2] q
    have b: "2 powi ?e \<le> ?q" "?q < 2 powi (?e + 1)" by auto
    have e0: "0 \<le> ?e"
    proof (rule ccontr)
      assume "\<not> 0 \<le> ?e"
      then have "?e + 1 \<le> 0" by simp
      then have "(2::rat) powi (?e + 1) \<le> 2 powi 0"
        by (intro power_int_increasing) auto
      with b(2) have "?q < 1" by simp
      with k show False by simp
    qed
    have e52: "?e \<le> 52"
    proof (rule ccontr)
      assume "\<not> ?e \<le> 52"
      then have "53 \<le> ?e" by simp
      then have "(2::rat) powi 53 \<le> 2 powi ?e"
        by (intro power_int_increasing) auto
      with b(1) have "(2::rat) ^ 53 \<le> ?q" by simp
      moreover have "?q < 2 ^ 53"
        using k(2) by (metis of_int_less_iff of_int_numeral of_int_power)
      ultimately show False by simp
    qed
    let ?m = "k * 2 ^ nat (52 - ?e)"
    have pw: "(2::rat) powi (?e - 52) = 1 / 2 ^ nat (52 - ?e)"
      using e52 by (simp add: power_int_def field_simps) 
    have m: "of_int ?m * (2::rat) powi (?e - 52) = ?q"
      by (simp add: pw)
    have "round_pos ?q = Fin (of_int ?m * 2 powi (?e - 52))"
    proof (rule round_pos_near)
      show "0 < ?q" by fact
      show "2 powi ?e \<le> ?q \<or> ?e = - 1022" using b(1) by simp
      show "?q < 2 powi (?e + 1)" by fact
      show "- 1022 \<le> ?e" using e0 by simp
      show "\<bar>?q - of_int ?m * 2 powi (?e - 52)\<bar> < 2 powi (?e - 53)"
        by (simp only: m) simp
      have "?q < 2 ^ 53"
        using k(2) by (metis of_int_less_iff of_int_numeral of_int_power)
      also have "\<dots> < (2::rat) powi 1024" by (simp add: power_int_def)
      finally show "of_int ?m * 2 powi (?e - 52) < (2::rat) powi 1024"
        by (simp only: m)
    qed
    with q show ?thesis
      by (simp only: m round_double_def) simp
  qed
  consider "n = 0" | "0 < n" | "n < 0" by linarith
  then show ?thesis
  proof cases
    case 1
    then show ?thesis by (simp add: round_double_def)
  next
    case 2
    with assms pos[of n] show ?thesis by simp
  next
    case 3
    with assms have "round_double (of_int (- n)) = Fin (of_int (- n))"
      by (intro pos) auto
    then have "round_double (- of_int n) = Fin (- of_int n)" by simp
    moreover have "round_double (- of_int n) = jneg (round_double (of_int n))"
      using 3 by (intro round_double_minus) simp
    ultimately have "jneg (jneg (round_double (of_int n))) = jneg (Fin (- of_int n))"
      by simp
    with 3 show ?thesis
      by simp
  qed
qed

lemma round_half_even_int: "round_half_even (of_int h) = h"
  by (rule round_half_even_near) simp

lemma round_double_even:
  assumes "0 < n" "n < 2 ^ 54" "even n"
  shows "round_double (of_int n) = Fin (of_int n)"
proof (cases "n < 2 ^ 53")
  case True
  with assms(1) show ?thesis
    by (intro round_double_int) simp
next
  case False
  then have lo: "2 ^ 53 \<le> n" by simp
  from assms(3) obtain h where h: "n = 2 * h" by (elim evenE)
  have "round_double (of_int n) = Fin (of_int h * 2 powi (53 - 52))"
  proof (rule round_double_eval(1))
    show "0 < (of_int n :: rat)" using assms(1) by simp
    show "2 powi 53 \<le> (of_int n :: rat) \<or> (53::int) = - 1022"
      using lo by (simp add: power_int_def)
    show "(of_int n :: rat) < 2 powi (53 + 1)"
      using assms(2) by (simp add: power_int_def)
    show "- 1022 \<le> (53::int)" by simp
    have "(of_int n :: rat) / 2 powi (53 - 52) = of_int h"
      by (simp add: h)
    then show "round_half_even (of_int n / 2 powi (53 - 52)) = h"
      by (simp only: round_half_even_int)
    have "(of_int h :: rat) * 2 powi (53 - 52) = of_int n"
      by (simp add: h)
    moreover have "(of_int n :: rat) < 2 ^ 54"
      using assms(2) by simp
    moreover have "(2::rat) ^ 54 < 2 powi 1024"
      by (simp add: power_int_def)
    ultimately show "of_int h * 2 powi (53 - 52) < (2::rat) powi 1024"
      by simp
  qed
  then show ?thesis by (simp add: h)
qed


lemma round_double_numeral [simp]:
  "numeral k < (2::int) ^ 53 \<Longrightarrow> round_double (numeral k) = Fin (numeral k)"
  "numeral k < (2::int) ^ 53 \<Longrightarrow> round_double (- numeral k) = Fin (- numeral k)"
  "round_double 0 = Fin 0" "round_double 1 = Fin 1"
  using round_double_int[of "numeral k"] round_double_int[of "- numeral k"]
    round_double_int[of 0] round_double_int[of 1]
  by simp_all

lemma jneg_obs [simp]:
  "jneg a = NaN \<longleftrightarrow> a = NaN" "is_zero (jneg a) = is_zero a" "is_inf (jneg a) = is_inf a"
  "a \<noteq> NaN \<Longrightarrow> is_neg (jneg a) = (\<not> is_neg a)" "val (jneg a) = - val a"
  by (cases a; auto)+

lemma jneg_signed [simp]: "jneg (zero_of s) = zero_of (\<not> s)" "jneg (inf_of s) = inf_of (\<not> s)"
  by (simp_all add: zero_of_def inf_of_def)






lemma jsub_simps [simp]:
  "jsub (Fin a) (Fin b) = round_double (a - b)"
  "jsub NInf PInf = NInf" "jsub PInf NInf = PInf" "jsub (Fin a) NInf = PInf" "jsub (Fin a) PInf = NInf"
  "jsub NZero NInf = PInf" "jsub NZero PInf = NInf"
  by (simp_all add: jsub_def)


text \<open>Division by the two zeros.\<close>

lemma jdiv_by_zero:
  "jdiv (Fin 1) (Fin 0) = PInf" "jdiv (Fin 1) NZero = NInf"
  "jdiv (Fin (- 1)) (Fin 0) = NInf" "jdiv (Fin (- 1)) NZero = PInf"
  "jdiv (Fin 0) (Fin 0) = NaN" "jdiv NZero (Fin 2) = NZero"
  by (simp_all add: jdiv_def inf_of_def zero_of_def)

section \<open>The render path\<close>











text \<open>With \<open>unitsPerEm = -0\<close> the scale is \<open>-\<infinity>\<close>, and the point goes to \<open>(-\<infinity>, +\<infinity>)\<close>.\<close>

lemma getPath_negative_zero:
  "getPath None None None (point_glyph\<lparr>font := Some \<lparr>unitsPerEm = NZero\<rparr>\<rparr>) =
     Inr (Path\<lparr>commands := [Cmd_M NInf PInf]\<rparr>)"
  by (simp add: getPath_def point_glyph_def Glyph_def no_options_def moveTo_def Path_def Let_def
        jdiv_def jmul_def inf_of_def)



section \<open>Printing numbers\<close>

lemma digit_char_digit: "d < 10 \<Longrightarrow> dec_digit (digit_char d)"
  unfolding digit_char_def dec_digit_def by (intro nth_mem) simp

lemma digits_of_digits: "list_all dec_digit (digits_of n)"
proof (induction n rule: digits_of.induct)
  case (1 n)
  show ?case
  proof (cases "n < 10")
    case True
    then have "nat n < 10" by simp
    with True show ?thesis
      using digit_char_digit[of "nat n"] by (simp add: digits_of.simps[of n])
  next
    case False
    have "nat (n mod 10) < 10" by simp
    with False 1 show ?thesis
      using digit_char_digit[of "nat (n mod 10)"] by (simp add: digits_of.simps[of n])
  qed
qed

lemma digits_of_nonempty: "digits_of n \<noteq> []"
  by (simp add: digits_of.simps[of n])

lemma digit_string_digits_of: "digit_string (digits_of n)"
  by (simp add: digit_string_def digits_of_digits digits_of_nonempty)

lemma split_last_digits:
  assumes "f + 1 \<le> length xs"
  shows "take (length xs - f) xs \<noteq> []" "length (drop (length xs - f) xs) = f"
  using assms by (cases xs; simp)+

lemma fixed_digits_shape:
  "\<exists>a b. fixed_digits f q = a @ (if f = 0 then [] else ''.'' @ b) \<and> digit_string a \<and>
         length b = f \<and> list_all dec_digit b"
proof (cases "f = 0")
  case True
  then show ?thesis
    by (simp add: fixed_digits_def Let_def digit_string_digits_of)
next
  case False
  define m where "m = digits_of \<lfloor>q * 10 ^ f + 1 / 2\<rfloor>"
  define m' where "m' = replicate (f + 1 - length m) (CHR ''0'') @ m"
  have len: "f + 1 \<le> length m'" by (simp add: m'_def)
  have "dec_digit (CHR ''0'')" by (simp add: dec_digit_def)
  then have dig: "list_all dec_digit m'"
    using digits_of_digits[of "\<lfloor>q * 10 ^ f + 1 / 2\<rfloor>"] by (auto simp: list_all_iff m'_def m_def)
  let ?a = "take (length m' - f) m'"
  let ?b = "drop (length m' - f) m'"
  have "list_all dec_digit ?a" "list_all dec_digit ?b"
    using dig by (auto simp: list_all_iff dest: in_set_takeD in_set_dropD)
  moreover have "fixed_digits f q = ?a @ ''.'' @ ?b"
    using False by (simp add: fixed_digits_def Let_def m'_def m_def)
  ultimately show ?thesis
    using False split_last_digits[OF len] unfolding digit_string_def
    by (intro exI[of _ ?a] exI[of _ ?b]) simp
qed

lemma dec_exp_bounds:
  assumes "0 < q"
  shows "10 powi (dec_exp q - 1) \<le> q" "q < 10 powi dec_exp q"
  using scale_exp_bounds[of q 10] assms by (simp_all add: dec_exp_def)

lemma round_double_1e21: "round_double (10 ^ 21) = Fin (10 ^ 21)"
  using round_double_eval(1)[of "10 ^ 21" 69 "10 ^ 21 div 2 ^ 17"]
  by (simp add: rd_simps)

lemma dec_exp_int_range:
  assumes "1 \<le> n" "n < 10 ^ 21"
  shows "1 \<le> dec_exp (of_int n)" "dec_exp (of_int n) \<le> 21"
proof -
  let ?q = "of_int n :: rat"
  let ?d = "dec_exp ?q"
  have "?q < of_int (10 ^ 21)"
    using assms(2) by (simp only: of_int_less_iff)
  then have q: "0 < ?q" "1 \<le> ?q" "?q < 10 ^ 21"
    using assms(1) by simp_all
  note b = dec_exp_bounds[OF q(1)]
  show "1 \<le> ?d"
  proof (rule ccontr)
    assume "\<not> 1 \<le> ?d"
    then have "?d \<le> 0" by simp
    then have "(10::rat) powi ?d \<le> 10 powi 0"
      by (intro power_int_increasing) auto
    with b(2) q(2) show False by simp
  qed
  show "?d \<le> 21"
  proof (rule ccontr)
    assume "\<not> ?d \<le> 21"
    then have "21 \<le> ?d - 1" by simp
    then have "(10::rat) powi 21 \<le> 10 powi (?d - 1)"
      by (intro power_int_increasing) auto
    with b(1) q(3) show False by simp
  qed
qed

lemma level_exact:
  assumes "dec_exp (of_int n) \<le> int k"
  shows "of_int \<lfloor>of_int n / (10::rat) powi (dec_exp (of_int n) - int k)\<rfloor>
           * (10::rat) powi (dec_exp (of_int n) - int k) = of_int n"
proof -
  define j where "j = nat (int k - dec_exp (of_int n))"
  have sc: "(10::rat) powi (dec_exp (of_int n) - int k) = 1 / 10 ^ j"
    using assms by (simp add: power_int_def j_def field_simps)
  have "(of_int n :: rat) / (1 / 10 ^ j) = of_int (n * 10 ^ j)"
    by simp
  then have "\<lfloor>(of_int n :: rat) / (1 / 10 ^ j)\<rfloor> = n * 10 ^ j"
    by (simp only: floor_of_int)
  then show ?thesis
    by (simp add: sc)
qed

lemma int_div_bounds:
  fixes n b :: int
  assumes "0 < b"
  shows "(n div b) * b \<le> n" "n < (n div b + 1) * b"
proof -
  have "n = b * (n div b) + n mod b" "0 \<le> n mod b" "n mod b < b"
    using assms by simp_all
  moreover have "(n div b + 1) * b = b * (n div b) + b" "(n div b) * b = b * (n div b)"
    by (simp_all add: algebra_simps)
  ultimately show "(n div b) * b \<le> n" "n < (n div b + 1) * b"
    by linarith+
qed

lemma int_div_ge1:
  fixes n b :: int
  assumes "0 < b" "b \<le> n"
  shows "1 \<le> n div b"
proof (rule ccontr)
  assume "\<not> 1 \<le> n div b"
  then have "n div b + 1 \<le> 1" by simp
  then have "(n div b + 1) * b \<le> 1 * b"
    using assms(1) by (intro mult_right_mono) auto
  with int_div_bounds(2)[OF assms(1), of n] assms(2) show False by simp
qed

lemma int_div_less:
  fixes n b x :: int
  assumes "0 < b" "n < x * b"
  shows "n div b < x"
proof (rule ccontr)
  assume "\<not> n div b < x"
  then have "x \<le> n div b" by simp
  then have "x * b \<le> (n div b) * b"
    using assms(1) by (intro mult_right_mono) auto
  with int_div_bounds(1)[OF assms(1), of n] assms(2) show False by simp
qed

lemma level_int:
  assumes n: "1 \<le> n" "n < 10 ^ 21" and k: "1 \<le> k" and kd: "int k < dec_exp (of_int n)"
  defines "sc \<equiv> (10::rat) powi (dec_exp (of_int n) - int k)"
  defines "lo \<equiv> of_int \<lfloor>of_int n / sc\<rfloor> * sc"
  shows "\<exists>m. lo = of_int m \<and> 1 \<le> m \<and> m < 10 ^ 21"
    and "round_double (lo + sc) = Fin (of_int n) \<Longrightarrow> \<exists>m. lo + sc = of_int m \<and> 1 \<le> m \<and> m < 10 ^ 21"
proof -
  let ?q = "of_int n :: rat"
  let ?d = "dec_exp ?q"
  define j where "j = nat (?d - int k)"
  define t where "t = n div 10 ^ j"
  have q: "0 < ?q" using n by simp
  note b = dec_exp_bounds[OF q]
  note r = dec_exp_int_range[OF n]
  have j: "1 \<le> j" "j \<le> nat (?d - 1)" "j \<le> nat ?d" "int j = ?d - int k"
    using k kd by (simp_all add: j_def)
  have sc: "sc = of_int (10 ^ j)"
    using kd by (simp add: sc_def power_int_def j_def)
  have "\<lfloor>?q / of_int (10 ^ j)\<rfloor> = n div 10 ^ j"
    by (rule floor_divide_of_int_eq)
  then have fl: "\<lfloor>?q / sc\<rfloor> = t"
    by (simp only: sc t_def)
  have lo: "lo = of_int (t * 10 ^ j)"
    unfolding lo_def fl unfolding sc by simp
  have hi: "lo + sc = of_int ((t + 1) * 10 ^ j)"
    by (simp add: lo sc algebra_simps)
  have "(10::rat) powi (?d - 1) = of_int (10 ^ nat (?d - 1))"
    using r(1) by (simp add: power_int_def)
  with b(1) have lown: "10 ^ nat (?d - 1) \<le> n"
    by (simp only: of_int_le_iff)
  have "(10::rat) powi ?d = of_int (10 ^ nat ?d)"
    using r(1) by (simp add: power_int_def)
  with b(2) have upn: "n < 10 ^ nat ?d"
    by (simp only: of_int_less_iff)
  have "(10::int) ^ j \<le> 10 ^ nat (?d - 1)"
    using j(2) by (intro power_increasing) auto
  with lown have "10 ^ j \<le> n" by (rule order_trans[rotated])
  then have t1: "1 \<le> t"
    unfolding t_def by (intro int_div_ge1) auto
  have tle: "t * 10 ^ j \<le> n"
    unfolding t_def by (intro int_div_bounds) auto
  have p1: "1 \<le> (10::int) ^ j" by simp
  have "1 * 1 \<le> t * 10 ^ j"
    using t1 p1 by (intro mult_mono) auto
  then have "1 \<le> t * 10 ^ j" by simp
  with tle n(2) show "\<exists>m. lo = of_int m \<and> 1 \<le> m \<and> m < 10 ^ 21"
    unfolding lo by (intro exI[of _ "t * 10 ^ j"]) simp
  have split: "(10::int) ^ nat ?d = 10 ^ (nat ?d - j) * 10 ^ j"
    using j(3) by (simp flip: power_add)
  have "t < 10 ^ (nat ?d - j)"
    unfolding t_def using upn split by (intro int_div_less) auto
  then have "t + 1 \<le> 10 ^ (nat ?d - j)" by simp
  then have "(t + 1) * 10 ^ j \<le> 10 ^ (nat ?d - j) * 10 ^ j"
    by (intro mult_right_mono) auto
  then have hile: "(t + 1) * 10 ^ j \<le> 10 ^ nat ?d"
    using split by simp
  have "(10::int) ^ nat ?d \<le> 10 ^ 21"
    using r(2) by (intro power_increasing) auto
  with hile have hi21: "(t + 1) * 10 ^ j \<le> 10 ^ 21" by (rule order_trans)
  assume rt: "round_double (lo + sc) = Fin (of_int n)"
  have "(t + 1) * 10 ^ j \<noteq> 10 ^ 21"
  proof
    assume e: "(t + 1) * 10 ^ j = 10 ^ 21"
    then have "lo + sc = 10 ^ 21"
      unfolding hi by (simp only: e) simp
    with rt round_double_1e21 have "?q = 10 ^ 21" by simp
    then have "n = 10 ^ 21"
      by (metis of_int_eq_iff of_int_numeral of_int_power)
    with n(2) show False by simp
  qed
  with hi21 have "(t + 1) * 10 ^ j < 10 ^ 21" by simp
  moreover have "1 * 1 \<le> (t + 1) * 10 ^ j"
    using t1 p1 by (intro mult_mono) auto
  then have "1 \<le> (t + 1) * 10 ^ j" by simp
  ultimately show "\<exists>m. lo + sc = of_int m \<and> 1 \<le> m \<and> m < 10 ^ 21"
    unfolding hi by (intro exI[of _ "(t + 1) * 10 ^ j"]) simp
qed

lemma shortest_int:
  assumes "1 \<le> n" "n < 10 ^ 21" "1 \<le> k"
  shows "\<exists>m. shortest fuel k (of_int n) = of_int m \<and> 1 \<le> m \<and> m < 10 ^ 21"
  using assms(3)
proof (induction fuel arbitrary: k)
  case 0
  show ?case
  proof (cases "dec_exp (of_int n) \<le> int k")
    case True
    from level_exact[OF True] assms(1,2) show ?thesis
      by (auto simp: Let_def)
  next
    case False
    then have "int k < dec_exp (of_int n)" by simp
    from level_int(1)[OF assms(1,2) 0 this] show ?thesis
      by (simp add: Let_def)
  qed
next
  case (Suc fuel)
  define sc where "sc = (10::rat) powi (dec_exp (of_int n) - int k)"
  define lo where "lo = of_int \<lfloor>of_int n / sc\<rfloor> * sc"
  have self: "\<exists>m. (of_int n :: rat) = of_int m \<and> 1 \<le> m \<and> m < 10 ^ 21"
    using assms(1,2) by blast
  have rec: "\<exists>m. shortest fuel (Suc k) (of_int n) = of_int m \<and> 1 \<le> m \<and> m < 10 ^ 21"
    by (rule Suc.IH) simp
  show ?case
  proof (cases "dec_exp (of_int n) \<le> int k")
    case True
    from level_exact[OF True] have "lo = of_int n"
      by (simp add: lo_def sc_def)
    with self show ?thesis
      by (simp add: Let_def lo_def sc_def)
  next
    case False
    then have kd: "int k < dec_exp (of_int n)" by simp
    from level_int[OF assms(1,2) Suc.prems kd]
    have lo: "\<exists>m. lo = of_int m \<and> 1 \<le> m \<and> m < 10 ^ 21"
      and hi: "round_double (lo + sc) = Fin (of_int n) \<Longrightarrow>
                 \<exists>m. lo + sc = of_int m \<and> 1 \<le> m \<and> m < 10 ^ 21"
      by (simp_all add: lo_def sc_def)
    have eq: "shortest (Suc fuel) k (of_int n) =
      (if lo = of_int n then of_int n
         else if round_double lo = Fin (of_int n) \<and> round_double (lo + sc) = Fin (of_int n) then
           (if of_int n - lo < lo + sc - of_int n then lo
            else if lo + sc - of_int n < of_int n - lo then lo + sc
            else if even \<lfloor>of_int n / sc\<rfloor> then lo else lo + sc)
         else if round_double lo = Fin (of_int n) then lo
         else if round_double (lo + sc) = Fin (of_int n) then lo + sc
         else shortest fuel (Suc k) (of_int n))"
      by (simp add: Let_def lo_def sc_def)
    show ?thesis
      unfolding eq using self rec lo hi by (auto split: if_splits)
  qed
qed

lemma format_pos_int:
  assumes "1 \<le> m" "m < 10 ^ 21"
  shows "format_pos (of_int m) = digits_of m"
proof -
  have "(of_int m :: rat) < of_int (10 ^ 21)"
    using assms(2) by (simp only: of_int_less_iff)
  then show ?thesis
    by (simp add: format_pos_def)
qed

lemma number_to_string_int:
  assumes "\<bar>n\<bar> < 10 ^ 21"
  shows "\<exists>ds. number_to_string (Fin (of_int n)) = (if n < 0 then ''-'' else '''') @ ds \<and> digit_string ds"
proof -
  consider "n = 0" | "0 < n" | "n < 0" by linarith
  then show ?thesis
  proof cases
    case 1
    have "digit_string ''0''" by (simp add: digit_string_def dec_digit_def)
    with 1 show ?thesis by simp
  next
    case 2
    with assms obtain m where "shortest 17 1 (of_int n) = of_int m" "1 \<le> m" "m < 10 ^ 21"
      using shortest_int[of n 1 17] by auto
    with 2 show ?thesis
      by (simp add: format_pos_int digit_string_digits_of)
  next
    case 3
    with assms obtain m where "shortest 17 1 (of_int (- n)) = of_int m" "1 \<le> m" "m < 10 ^ 21"
      using shortest_int[of "- n" 1 17] by auto
    with 3 show ?thesis
      by (simp add: format_pos_int digit_string_digits_of)
  qed
qed

lemma Math_round_whole: "Math_round (Fin (of_int n)) = Fin (of_int n)"
proof -
  have fl: "\<lfloor>(of_int n :: rat) + 1 / 2\<rfloor> = n"
    by (intro floor_unique) auto
  have "\<not> ((of_int n :: rat) < 0 \<and> - (1 / 2) \<le> (of_int n :: rat))"
  proof
    assume a: "(of_int n :: rat) < 0 \<and> - (1 / 2) \<le> (of_int n :: rat)"
    then have "n < 0" by simp
    then have "n \<le> - 1" by simp
    then have "(of_int n :: rat) \<le> of_int (- 1)"
      by (simp only: of_int_le_iff)
    with a show False by simp
  qed
  with fl show ?thesis
    by simp
qed

lemma floatToString_int:
  "floatToString dp (Fin (of_int n)) = Inr (number_to_string (Fin (of_int n)))"
  by (simp only: floatToString_def Math_round_whole strict_eq_def) simp

lemma floatToString_whole:
  assumes "\<bar>n\<bar> < 10 ^ 21"
  shows "\<exists>ds. floatToString dp (Fin (of_int n)) = Inr ((if n < 0 then ''-'' else '''') @ ds) \<and>
              digit_string ds"
proof -
  have "floatToString dp (Fin (of_int n)) = Inr (number_to_string (Fin (of_int n)))"
    by (simp only: floatToString_def Math_round_whole strict_eq_def) simp
  with number_to_string_int[OF assms] show ?thesis
    by auto
qed

lemma floatToString_fraction:
  assumes "of_int \<lfloor>q\<rfloor> \<noteq> q"
  shows "floatToString dp (Fin q) = toFixed dp (Fin q)"
proof -
  have "of_int \<lfloor>q + 1 / 2\<rfloor> \<noteq> q"
  proof
    assume "of_int \<lfloor>q + 1 / 2\<rfloor> = q"
    then have "of_int \<lfloor>q\<rfloor> = q"
      by (metis floor_of_int)
    with assms show False by simp
  qed
  moreover have "q \<noteq> 0"
    using assms by auto
  ultimately show ?thesis
    by (simp add: floatToString_def strict_eq_def)
qed

lemma toFixed_shape:
  assumes "0 \<le> f" "f \<le> 100" "\<bar>q\<bar> < 10 ^ 21"
  shows "\<exists>a b. toFixed f (Fin q) = Inr ((if q < 0 then ''-'' else '''') @ a @ (if f = 0 then [] else ''.'' @ b)) \<and>
               digit_string a \<and> length b = nat f \<and> list_all dec_digit b"
proof -
  from fixed_digits_shape[of "nat f" "\<bar>q\<bar>"] obtain a b where
    "fixed_digits (nat f) \<bar>q\<bar> = a @ (if nat f = 0 then [] else ''.'' @ b)"
    "digit_string a" "length b = nat f" "list_all dec_digit b"
    by blast
  with assms show ?thesis
    by (intro exI[of _ a] exI[of _ b]) (auto simp: toFixed_def)
qed

lemma toFixed_range: "toFixed f v = Inr t \<Longrightarrow> 0 \<le> f \<and> f \<le> 100"
  by (auto simp: toFixed_def split: if_splits)

lemma toFixed_total: "0 \<le> f \<Longrightarrow> f \<le> 100 \<Longrightarrow> \<not> isl (toFixed f v)"
  by (cases v) (simp_all add: toFixed_def)

lemma floatToString_total: "0 \<le> f \<Longrightarrow> f \<le> 100 \<Longrightarrow> \<not> isl (floatToString f v)"
  by (simp add: floatToString_def toFixed_total)

lemma digits_of_numeral:
  "digits_of (numeral k) =
     (if numeral k < (10::int) then [digit_char (nat (numeral k))]
      else digits_of (numeral k div 10) @ [digit_char (nat (numeral k mod 10))])"
  "digits_of 0 = ''0''"
  "digits_of 1 = ''1''"
  by (simp_all add: digits_of.simps[of 0] digits_of.simps[of 1] digits_of.simps[of "numeral k"]
        digit_char_def)

lemma shortest_exact:
  assumes "dec_exp (of_int n) \<le> int k"
  shows "shortest (Suc fuel) k (of_int n) = of_int n"
  using level_exact[OF assms] by (simp add: Let_def)

lemma level_split:
  assumes n: "1 \<le> n" and k: "1 \<le> k" and kd: "int k < dec_exp (of_int n)"
  defines "sc \<equiv> (10::rat) powi (dec_exp (of_int n) - int k)"
  defines "lo \<equiv> of_int \<lfloor>of_int n / sc\<rfloor> * sc"
  shows "\<exists>a b. lo = of_int a \<and> lo + sc = of_int b \<and> 1 \<le> a \<and> a \<le> n \<and> n < b \<and> even b \<and>
               b \<le> 10 ^ nat (dec_exp (of_int n))"
proof -
  let ?q = "of_int n :: rat"
  let ?d = "dec_exp ?q"
  define j where "j = nat (?d - int k)"
  define t where "t = n div 10 ^ j"
  have q: "0 < ?q" using n by simp
  note b = dec_exp_bounds[OF q]
  have d1: "1 \<le> ?d" using k kd by simp
  have j: "1 \<le> j" "j \<le> nat (?d - 1)" "j \<le> nat ?d" "int j = ?d - int k"
    using k kd by (simp_all add: j_def)
  have sc: "sc = of_int (10 ^ j)"
    using kd by (simp add: sc_def power_int_def j_def)
  have "\<lfloor>?q / of_int (10 ^ j)\<rfloor> = n div 10 ^ j"
    by (rule floor_divide_of_int_eq)
  then have fl: "\<lfloor>?q / sc\<rfloor> = t"
    by (simp only: sc t_def)
  have lo: "lo = of_int (t * 10 ^ j)"
    unfolding lo_def fl unfolding sc by simp
  have hi: "lo + sc = of_int ((t + 1) * 10 ^ j)"
    by (simp add: lo sc algebra_simps)
  have "(10::rat) powi (?d - 1) = of_int (10 ^ nat (?d - 1))"
    using d1 by (simp add: power_int_def)
  with b(1) have lown: "10 ^ nat (?d - 1) \<le> n"
    by (simp only: of_int_le_iff)
  have "(10::rat) powi ?d = of_int (10 ^ nat ?d)"
    using d1 by (simp add: power_int_def)
  with b(2) have upn: "n < 10 ^ nat ?d"
    by (simp only: of_int_less_iff)
  have "(10::int) ^ j \<le> 10 ^ nat (?d - 1)"
    using j(2) by (intro power_increasing) auto
  with lown have "10 ^ j \<le> n" by (rule order_trans[rotated])
  then have t1: "1 \<le> t"
    unfolding t_def by (intro int_div_ge1) auto
  have tle: "t * 10 ^ j \<le> n"
    unfolding t_def by (intro int_div_bounds) auto
  have nlt: "n < (t + 1) * 10 ^ j"
    unfolding t_def by (intro int_div_bounds) auto
  have p1: "1 \<le> (10::int) ^ j" by simp
  have "1 * 1 \<le> t * 10 ^ j"
    using t1 p1 by (intro mult_mono) auto
  then have a1: "1 \<le> t * 10 ^ j" by simp
  have split: "(10::int) ^ nat ?d = 10 ^ (nat ?d - j) * 10 ^ j"
    using j(3) by (simp flip: power_add)
  have "t < 10 ^ (nat ?d - j)"
    unfolding t_def using upn split by (intro int_div_less) auto
  then have "t + 1 \<le> 10 ^ (nat ?d - j)" by simp
  then have "(t + 1) * 10 ^ j \<le> 10 ^ (nat ?d - j) * 10 ^ j"
    by (intro mult_right_mono) auto
  then have hile: "(t + 1) * 10 ^ j \<le> 10 ^ nat ?d"
    using split by simp
  have "even ((10::int) ^ j)"
    using j(1) by simp
  then have ev: "even ((t + 1) * 10 ^ j)"
    by simp
  show ?thesis
    using lo hi a1 tle nlt ev hile by blast
qed

lemma dec_exp_safe:
  assumes "1 \<le> n" "n \<le> 2 ^ 53"
  shows "dec_exp (of_int n) \<le> 16"
proof (rule ccontr)
  let ?q = "of_int n :: rat"
  have q: "0 < ?q" using assms(1) by simp
  note b = dec_exp_bounds[OF q]
  assume "\<not> dec_exp ?q \<le> 16"
  then have "16 \<le> dec_exp ?q - 1" by simp
  then have "(10::rat) powi 16 \<le> 10 powi (dec_exp ?q - 1)"
    by (intro power_int_increasing) auto
  with b(1) have "(10::rat) ^ 16 \<le> ?q" by simp
  then have "(10::int) ^ 16 \<le> n" by simp
  with assms(2) show False by simp
qed

lemma shortest_safe:
  assumes n: "1 \<le> n" "n \<le> 2 ^ 53" and k: "1 \<le> k" and f: "dec_exp (of_int n) \<le> int (k + fuel)"
  shows "shortest fuel k (of_int n) = of_int n"
  using k f
proof (induction fuel arbitrary: k)
  case 0
  then have "dec_exp (of_int n) \<le> int k" by simp
  from level_exact[OF this] show ?case
    by (simp add: Let_def)
next
  case (Suc fuel)
  show ?case
  proof (cases "dec_exp (of_int n) \<le> int k")
    case True
    then show ?thesis by (rule shortest_exact)
  next
    case False
    then have kd: "int k < dec_exp (of_int n)" by simp
    define sc where "sc = (10::rat) powi (dec_exp (of_int n) - int k)"
    define lo where "lo = of_int \<lfloor>of_int n / sc\<rfloor> * sc"
    from level_split[OF n(1) Suc.prems(1) kd]
    obtain a b where ab: "lo = of_int a" "lo + sc = of_int b" "1 \<le> a" "a \<le> n" "n < b" "even b"
        "b \<le> 10 ^ nat (dec_exp (of_int n))"
      unfolding lo_def sc_def by blast
    have rec: "shortest fuel (Suc k) (of_int n) = of_int n"
      using Suc.prems by (intro Suc.IH) simp_all
    have "(10::int) ^ nat (dec_exp (of_int n)) \<le> 10 ^ 16"
      using dec_exp_safe[OF n] by (intro power_increasing) auto
    with ab(7) have "b \<le> 10 ^ 16" by (rule order_trans)
    then have b54: "b < 2 ^ 54" by simp
    have bpos: "0 < b" using ab(5) n(1) by simp
    have rb: "round_double (of_int b) = Fin (of_int b)"
      using bpos b54 ab(6) by (rule round_double_even)
    have hi_ne: "round_double (lo + sc) \<noteq> Fin (of_int n)"
      using rb ab(5) by (simp add: ab(2))
    have lo_ne: "round_double lo \<noteq> Fin (of_int n)" if "lo \<noteq> of_int n"
    proof -
      from that ab(1,4) have "a < n" by auto
      with ab(3) n(2) have "\<bar>a\<bar> < 2 ^ 53" by simp
      then have "round_double (of_int a) = Fin (of_int a)"
        by (rule round_double_int)
      with \<open>a < n\<close> show ?thesis by (simp add: ab(1))
    qed
    have eq: "shortest (Suc fuel) k (of_int n) =
      (if lo = of_int n then of_int n
         else if round_double lo = Fin (of_int n) \<and> round_double (lo + sc) = Fin (of_int n) then
           (if of_int n - lo < lo + sc - of_int n then lo
            else if lo + sc - of_int n < of_int n - lo then lo + sc
            else if even \<lfloor>of_int n / sc\<rfloor> then lo else lo + sc)
         else if round_double lo = Fin (of_int n) then lo
         else if round_double (lo + sc) = Fin (of_int n) then lo + sc
         else shortest fuel (Suc k) (of_int n))"
      by (simp add: Let_def lo_def sc_def)
    show ?thesis
      unfolding eq using rec hi_ne lo_ne by simp
  qed
qed

lemma number_to_string_safe:
  assumes "\<bar>n\<bar> \<le> 2 ^ 53"
  shows "number_to_string (Fin (of_int n)) = (if n < 0 then ''-'' else []) @ digits_of \<bar>n\<bar>"
proof -
  have pos: "format_pos (shortest 17 1 (of_int m)) = digits_of m" if m: "1 \<le> m" "m \<le> 2 ^ 53" for m
  proof -
    have "dec_exp (of_int m) \<le> int (1 + 17)"
      using dec_exp_safe[OF m] by simp
    with m have "shortest 17 1 (of_int m) = of_int m"
      by (intro shortest_safe) simp_all
    moreover have "m < 10 ^ 21" using m(2) by simp
    ultimately show ?thesis
      using m(1) by (simp add: format_pos_int)
  qed
  consider "n = 0" | "0 < n" | "n < 0" by linarith
  then show ?thesis
  proof cases
    case 1
    then show ?thesis by (simp add: digits_of_numeral)
  next
    case 2
    with assms pos[of n] show ?thesis by simp
  next
    case 3
    with assms pos[of "- n"] show ?thesis by simp
  qed
qed

lemma digit_char_nonzero: "0 < d \<Longrightarrow> d < 10 \<Longrightarrow> digit_char d \<noteq> CHR ''0''"
proof -
  assume "0 < d" "d < 10"
  then have "d \<in> {1, 2, 3, 4, 5, 6, 7, 8, 9}" by auto
  then show ?thesis by (auto simp: digit_char_def)
qed

lemma digits_of_hd: "0 < n \<Longrightarrow> hd (digits_of n) \<noteq> CHR ''0''"
proof (induction n rule: digits_of.induct)
  case (1 n)
  show ?case
  proof (cases "n < 10")
    case True
    with 1(2) have "0 < nat n" "nat n < 10" by simp_all
    then have "digit_char (nat n) \<noteq> CHR ''0''" by (rule digit_char_nonzero)
    with True show ?thesis by (simp add: digits_of.simps[of n])
  next
    case False
    then have "0 < n div 10" by simp
    with 1(1) False have "hd (digits_of (n div 10)) \<noteq> CHR ''0''" by simp
    with False show ?thesis
      by (simp add: digits_of.simps[of n] digits_of_nonempty)
  qed
qed

lemma strip_zeros_Cons:
  assumes "c \<noteq> CHR ''0''"
  shows "strip_zeros (c # r) = c # strip_zeros r"
  using assms by (simp add: strip_zeros_def dropWhile_append)

lemma strip_zeros_digits: "list_all dec_digit ds \<Longrightarrow> list_all dec_digit (strip_zeros ds)"
  by (auto simp: strip_zeros_def list_all_iff dest: set_dropWhileD)

lemma format_pos_large:
  assumes "10 ^ 21 \<le> v"
  shows "\<exists>m e. format_pos v = m @ ''e+'' @ digits_of e \<and> mantissa m \<and> 21 \<le> e"
proof -
  let ?n = "dec_exp v"
  have v: "0 < v" using assms by (rule less_le_trans[rotated]) simp
  note b = dec_exp_bounds[OF v]
  have n: "22 \<le> ?n"
  proof (rule ccontr)
    assume "\<not> 22 \<le> ?n"
    then have "?n \<le> 21" by simp
    then have "(10::rat) powi ?n \<le> 10 powi 21"
      by (intro power_int_increasing) auto
    with b(2) assms show False by simp
  qed
  define N where "N = \<lfloor>v * 10 powi (18 - ?n)\<rfloor>"
  define ds where "ds = strip_zeros (digits_of N)"
  have "(10::rat) powi (?n - 1) * 10 powi (18 - ?n) \<le> v * 10 powi (18 - ?n)"
    using b(1) by (intro mult_right_mono) auto
  moreover have "(10::rat) powi (?n - 1) * 10 powi (18 - ?n) = 10 powi 17"
    by (simp flip: power_int_add)
  ultimately have "(of_int (10 ^ 17) :: rat) \<le> v * 10 powi (18 - ?n)"
    by simp
  then have "10 ^ 17 \<le> N"
    unfolding N_def by (simp only: le_floor_iff)
  then have Npos: "0 < N" by simp
  obtain c r where cr: "digits_of N = c # r"
    using digits_of_nonempty[of N] by (cases "digits_of N") auto
  have c0: "c \<noteq> CHR ''0''"
    using digits_of_hd[OF Npos] cr by simp
  have dig: "list_all dec_digit (c # r)"
    using digits_of_digits[of N] cr by simp
  have ds: "ds = c # strip_zeros r"
    unfolding ds_def cr using c0 by (rule strip_zeros_Cons)
  have digr: "list_all dec_digit (strip_zeros r)"
    using dig by (intro strip_zeros_digits) simp
  have cdig: "dec_digit c" using dig by simp
  define ex where "ex = ''e+'' @ digits_of (?n - 1)"
  define m where "m = (if strip_zeros r = [] then [c] else c # ''.'' @ strip_zeros r)"
  have "\<not> v < 10 ^ 21" using assms by simp
  then have "format_pos v = (if int (length ds) = 1 then ds @ ex else [hd ds] @ ''.'' @ tl ds @ ex)"
    using n by (simp add: format_pos_def Let_def N_def ds_def ex_def)
  then have "format_pos v = m @ ex"
    by (simp add: ds m_def)
  moreover have "mantissa m"
    using cdig digr by (simp add: m_def mantissa_def digit_string_def)
  ultimately show ?thesis
    using n unfolding ex_def by (intro exI[of _ m] exI[of _ "?n - 1"]) simp
qed

lemma dec_exp_large:
  assumes "10 ^ 21 \<le> v"
  shows "22 \<le> dec_exp v"
proof (rule ccontr)
  have v: "0 < v" using assms by (rule less_le_trans[rotated]) simp
  note b = dec_exp_bounds[OF v]
  assume "\<not> 22 \<le> dec_exp v"
  then have "dec_exp v \<le> 21" by simp
  then have "(10::rat) powi dec_exp v \<le> 10 powi 21"
    by (intro power_int_increasing) auto
  with b(2) assms show False by simp
qed

lemma level_large:
  assumes "10 ^ 21 \<le> q" "1 \<le> k"
  defines "sc \<equiv> (10::rat) powi (dec_exp q - int k)"
  shows "10 ^ 21 \<le> of_int \<lfloor>q / sc\<rfloor> * sc"
proof -
  let ?n = "dec_exp q"
  have q: "0 < q" using assms(1) by (rule less_le_trans[rotated]) simp
  note b = dec_exp_bounds[OF q]
  note n = dec_exp_large[OF assms(1)]
  have scpos: "0 < sc" by (simp add: sc_def)
  have "(10::rat) powi (?n - 1) = 10 powi (int k - 1) * sc"
    by (simp add: sc_def flip: power_int_add)
  moreover have "(10::rat) powi (int k - 1) = of_int (10 ^ (k - 1))"
    using assms(2) by (simp add: power_int_def nat_diff_distrib')
  ultimately have low: "(10::rat) powi (?n - 1) = of_int (10 ^ (k - 1)) * sc"
    by simp
  have "of_int (10 ^ (k - 1)) * sc / sc \<le> q / sc"
    using b(1) scpos unfolding low by (intro divide_right_mono) auto
  then have "of_int (10 ^ (k - 1)) \<le> q / sc"
    using scpos by simp
  then have "10 ^ (k - 1) \<le> \<lfloor>q / sc\<rfloor>"
    by (simp only: le_floor_iff)
  then have "(of_int (10 ^ (k - 1)) :: rat) \<le> of_int \<lfloor>q / sc\<rfloor>"
    by (simp only: of_int_le_iff)
  then have "of_int (10 ^ (k - 1)) * sc \<le> of_int \<lfloor>q / sc\<rfloor> * sc"
    using scpos by (intro mult_right_mono) auto
  moreover have "(10::rat) powi 21 \<le> 10 powi (?n - 1)"
    using n by (intro power_int_increasing) auto
  ultimately show ?thesis
    unfolding low[symmetric] by simp
qed

lemma shortest_large:
  assumes "10 ^ 21 \<le> q" "1 \<le> k"
  shows "10 ^ 21 \<le> shortest fuel k q"
  using assms(2)
proof (induction fuel arbitrary: k)
  case 0
  from level_large[OF assms(1) 0] show ?case
    by (simp add: Let_def)
next
  case (Suc fuel)
  define sc where "sc = (10::rat) powi (dec_exp q - int k)"
  define lo where "lo = of_int \<lfloor>q / sc\<rfloor> * sc"
  have lo: "10 ^ 21 \<le> lo"
    using level_large[OF assms(1) Suc.prems] by (simp add: lo_def sc_def)
  have "0 < sc" by (simp add: sc_def)
  with lo have hi: "10 ^ 21 \<le> lo + sc" by simp
  have rec: "10 ^ 21 \<le> shortest fuel (Suc k) q"
    by (rule Suc.IH) simp
  have eq: "shortest (Suc fuel) k q =
      (if lo = q then q
         else if round_double lo = Fin q \<and> round_double (lo + sc) = Fin q then
           (if q - lo < lo + sc - q then lo
            else if lo + sc - q < q - lo then lo + sc
            else if even \<lfloor>q / sc\<rfloor> then lo else lo + sc)
         else if round_double lo = Fin q then lo
         else if round_double (lo + sc) = Fin q then lo + sc
         else shortest fuel (Suc k) q)"
    by (simp add: Let_def lo_def sc_def)
  show ?case
    unfolding eq using assms(1) lo hi rec by simp
qed

lemma number_to_string_large:
  assumes "10 ^ 21 \<le> \<bar>q\<bar>"
  shows "\<exists>m e. number_to_string (Fin q) = (if q < 0 then ''-'' else []) @ m @ ''e+'' @ digits_of e \<and>
               mantissa m \<and> 21 \<le> e"
proof (cases "q < 0")
  case True
  with assms have "10 ^ 21 \<le> - q" by simp
  then have "10 ^ 21 \<le> shortest 17 1 (- q)"
    by (intro shortest_large) simp_all
  from format_pos_large[OF this] True show ?thesis
    by auto
next
  case False
  with assms have q: "10 ^ 21 \<le> q" by simp
  then have "10 ^ 21 \<le> shortest 17 1 q"
    by (intro shortest_large) simp_all
  from format_pos_large[OF this] False q show ?thesis
    by auto
qed

lemma floatToString_large:
  assumes "10 ^ 21 \<le> \<bar>q\<bar>" "floatToString dp (Fin q) = Inr t"
  shows "\<exists>m e. t = (if q < 0 then ''-'' else []) @ m @ ''e+'' @ digits_of e \<and> mantissa m \<and> 21 \<le> e"
proof (cases "of_int \<lfloor>q\<rfloor> = q")
  case True
  have "floatToString dp (Fin (of_int \<lfloor>q\<rfloor>)) = Inr (number_to_string (Fin (of_int \<lfloor>q\<rfloor>)))"
    by (rule floatToString_int)
  then have "floatToString dp (Fin q) = Inr (number_to_string (Fin q))"
    by (simp only: True)
  with assms(2) have "t = number_to_string (Fin q)" by simp
  with number_to_string_large[OF assms(1)] show ?thesis by simp
next
  case False
  from floatToString_fraction[OF False, of dp] assms(2) have tf: "toFixed dp (Fin q) = Inr t"
    by simp
  then have r: "0 \<le> dp" "dp \<le> 100"
    using toFixed_range by blast+
  have "10 ^ 21 \<le> \<bar>\<bar>q\<bar>\<bar>" using assms(1) by simp
  from number_to_string_large[OF this] obtain m e where
    me: "number_to_string (Fin \<bar>q\<bar>) = m @ ''e+'' @ digits_of e" "mantissa m" "21 \<le> e"
    by (auto split: if_splits)
  from tf r assms(1) have "t = (if q < 0 then ''-'' else []) @ number_to_string (Fin \<bar>q\<bar>)"
    by (auto simp: toFixed_def simp del: number_to_string.simps)
  with me show ?thesis
    by (intro exI[of _ m] exI[of _ e]) simp
qed

lemma floatToString_special:
  "floatToString dp PInf = Inr ''Infinity''"
  "floatToString dp NInf = Inr ''-Infinity''"
  "floatToString dp NZero = Inr ''0''"
  "floatToString dp NaN = (if dp < 0 \<or> 100 < dp then Inl RangeError else Inr ''NaN'')"
  by (simp_all add: floatToString_def strict_eq_def toFixed_def)

lemma floatToString_safe:
  assumes "of_int \<lfloor>q\<rfloor> = q" "\<bar>q\<bar> \<le> 2 ^ 53"
  shows "floatToString dp (Fin q) = Inr ((if q < 0 then ''-'' else []) @ digits_of \<bar>\<lfloor>q\<rfloor>\<bar>)"
proof -
  have "\<bar>of_int \<lfloor>q\<rfloor> :: rat\<bar> \<le> 2 ^ 53"
    unfolding assms(1) by (rule assms(2))
  then have "(of_int \<bar>\<lfloor>q\<rfloor>\<bar> :: rat) \<le> of_int (2 ^ 53)"
    by simp
  then have le: "\<bar>\<lfloor>q\<rfloor>\<bar> \<le> 2 ^ 53"
    by (simp only: of_int_le_iff)
  have neg: "(\<lfloor>q\<rfloor> < 0) = (q < 0)"
    by (simp add: floor_less_iff)
  have "floatToString dp (Fin (of_int \<lfloor>q\<rfloor>)) = Inr (number_to_string (Fin (of_int \<lfloor>q\<rfloor>)))"
    by (rule floatToString_int)
  also have "number_to_string (Fin (of_int \<lfloor>q\<rfloor>)) = (if \<lfloor>q\<rfloor> < 0 then ''-'' else []) @ digits_of \<bar>\<lfloor>q\<rfloor>\<bar>"
    using le by (rule number_to_string_safe)
  finally show ?thesis
    by (simp only: assms(1) neg)
qed


section \<open>Path data\<close>

lemma packValues_loop_Inr:
  "packValues_loop dp vs i s = Inr r \<longleftrightarrow>
     list_all (\<lambda>v. \<not> isl (floatToString dp v)) vs \<and>
     r = s @ concat (map (\<lambda>(j, v). (if jge v (Fin 0) \<and> 0 < j then '' '' else []) @ coord_text dp v)
                         (enumerate i vs))"
proof (induction vs arbitrary: i s)
  case Nil
  then show ?case by auto
next
  case (Cons v vs)
  show ?case
  proof (cases "floatToString dp v")
    case (Inl e)
    then show ?thesis by simp
  next
    case (Inr t)
    then show ?thesis
      using Cons.IH[of "Suc i"] by (auto simp: Let_def coord_text_def)
  qed
qed

lemma packValues_Inr:
  "packValues dp vs = Inr r \<longleftrightarrow>
     list_all (\<lambda>v. \<not> isl (floatToString dp v)) vs \<and> r = pack_text dp vs"
  by (simp add: packValues_def pack_text_def packValues_loop_Inr)

lemma map_sum_Inr: "map_sum id f x = Inr r \<longleftrightarrow> (\<exists>t. x = Inr t \<and> r = f t)"
  by (cases x) auto

lemma pack_text_Nil [simp]: "pack_text dp [] = []"
  by (simp add: pack_text_def)

lemma cmd_data_Inr:
  "cmd_data dp c = Inr t \<longleftrightarrow>
     list_all (\<lambda>v. \<not> isl (floatToString dp v)) (cmd_values c) \<and>
     t = cmd_type c # pack_text dp (cmd_values c)"
  by (cases c) (auto simp: map_sum_Inr packValues_Inr)

lemma toPathData_loop_Inr:
  "toPathData_loop dp cmds d = Inr r \<longleftrightarrow>
     (\<forall>c \<in> set cmds. list_all (\<lambda>v. \<not> isl (floatToString dp v)) (cmd_values c)) \<and>
     r = d @ path_text dp cmds"
proof (induction cmds arbitrary: d)
  case Nil
  then show ?case by (auto simp: path_text_def)
next
  case (Cons c cmds)
  show ?case
  proof (cases "cmd_data dp c")
    case (Inl e)
    then have "\<not> list_all (\<lambda>v. \<not> isl (floatToString dp v)) (cmd_values c)"
      using cmd_data_Inr[of dp c] by auto
    with Inl show ?thesis by simp
  next
    case (Inr t)
    then show ?thesis
      using Cons.IH[of "d @ t"] cmd_data_Inr[of dp c t] by (auto simp: path_text_def)
  qed
qed

lemma toPathData_Inr:
  "toPathData decimalPlaces p = Inr d \<longleftrightarrow>
     (\<forall>c \<in> set (commands p).
         list_all (\<lambda>v. \<not> isl (floatToString (places decimalPlaces) v)) (cmd_values c)) \<and>
     d = path_text (places decimalPlaces) (commands p)"
  by (simp add: toPathData_def places_def toPathData_loop_Inr Let_def)


lemma dec_exp_digit:
  assumes "1 \<le> n" "n < 10"
  shows "dec_exp (of_int n) = 1"
proof -
  have "scale_exp 10 (of_int n) = 0"
    using assms by (intro scale_exp_unique) simp_all
  then show ?thesis by (simp add: dec_exp_def)
qed

lemma number_to_string_digit:
  assumes "1 \<le> n" "n < 10"
  shows "number_to_string (Fin (of_int n)) = [digit_char (nat n)]"
    and "number_to_string (Fin (- of_int n)) = ''-'' @ [digit_char (nat n)]"
proof -
  have "shortest (Suc 16) 1 (of_int n) = of_int n"
    using dec_exp_digit[OF assms] by (intro shortest_exact) simp
  then have s: "shortest 17 1 (of_int n) = of_int n"
    by (simp add: eval_nat_numeral)
  have f: "format_pos (of_int n) = [digit_char (nat n)]"
    using assms by (simp add: format_pos_int digits_of.simps[of n])
  show "number_to_string (Fin (of_int n)) = [digit_char (nat n)]"
    using assms s f by simp
  show "number_to_string (Fin (- of_int n)) = ''-'' @ [digit_char (nat n)]"
    using assms s f by simp
qed

lemma floatToString_small:
  "floatToString dp (Fin 0) = Inr ''0''"
  "floatToString dp (Fin 1) = Inr ''1''"
  "floatToString dp (Fin 2) = Inr ''2''"
  "floatToString dp (Fin 3) = Inr ''3''"
  "floatToString dp (Fin (- 1)) = Inr ''-1''"
  "floatToString dp (Fin (- 2)) = Inr ''-2''"
  using number_to_string_digit[of 1] number_to_string_digit[of 2] number_to_string_digit[of 3]
    floatToString_int[of dp 0] floatToString_int[of dp 1] floatToString_int[of dp 2]
    floatToString_int[of dp 3] floatToString_int[of dp "- 1"] floatToString_int[of dp "- 2"]
  by (simp_all add: digit_char_def)

lemma floatToString_three_halves: "floatToString 2 (Fin (3 / 2)) = Inr ''1.50''"
  by (simp add: floatToString_def strict_eq_def toFixed_def fixed_digits_def Let_def
        digits_of_numeral digit_char_def)

lemma data_path_text: "toPathData None data_path = Inr ''M1-2L3 0Q-1-1 2 1.50Z''"
  by (simp add: toPathData_def data_path_def moveTo_def lineTo_def quadraticCurveTo_def
        closePath_def Path_def packValues_def floatToString_small floatToString_three_halves
        jge_def)

lemma dec_exp_huge: "dec_exp 1500000000000000000000 = 22"
proof -
  have "scale_exp 10 1500000000000000000000 = 21"
    by (intro scale_exp_unique) (simp_all add: power_int_def)
  then show ?thesis by (simp add: dec_exp_def)
qed

lemma round_double_2e21: "round_double (2 * 10 ^ 21) = Fin (2 * 10 ^ 21)"
  using round_double_eval(1)[of "2 * 10 ^ 21" 70 "2 * 10 ^ 21 div 2 ^ 18"]
  by (simp add: rd_simps)

lemma shortest_huge: "shortest 17 1 1500000000000000000000 = 1500000000000000000000"
proof -
  have "shortest 17 1 1500000000000000000000 = shortest (Suc 16) 1 1500000000000000000000"
    by simp
  also have "\<dots> = shortest 16 (Suc (Suc 0)) 1500000000000000000000"
    using round_double_1e21 round_double_2e21
    by (subst shortest.simps(2)) (simp add: Let_def dec_exp_huge power_int_def)
  also have "\<dots> = shortest (Suc 15) (Suc (Suc 0)) 1500000000000000000000"
    by simp
  also have "\<dots> = 1500000000000000000000"
    by (subst shortest.simps(2)) (simp add: Let_def dec_exp_huge power_int_def)
  finally show ?thesis .
qed

lemma number_to_string_huge: "number_to_string (Fin 1500000000000000000000) = ''1.5e+21''"
proof -
  have "format_pos 1500000000000000000000 = ''1.5e+21''"
    by (simp add: format_pos_def dec_exp_huge Let_def power_int_def power_one_over
        digits_of_numeral digit_char_def strip_zeros_def)
  then show ?thesis
    by (simp add: shortest_huge[simplified])
qed

lemma floatToString_huge: "floatToString dp (Fin 1500000000000000000000) = Inr ''1.5e+21''"
  using floatToString_int[of dp 1500000000000000000000] number_to_string_huge
  by (simp del: number_to_string.simps)

lemma huge_path_text: "toPathData None huge_path = Inr ''M1.5e+21 0''"
  using floatToString_huge[of 2]
  by (simp add: toPathData_def huge_path_def moveTo_def Path_def packValues_def floatToString_small
        jge_def del: number_to_string.simps)

section \<open>How the coordinates of the example print\<close>

text \<open>
  \<open>Number::toString\<close> on the two coordinates of the example of claim C1. For the x
  coordinate no decimal of fewer than sixteen digits reads back as the same double.
\<close>



lemma shortest_numeral:
  "shortest (numeral f) k q =
     (let sc = 10 powi (dec_exp q - int k);
          lo = of_int \<lfloor>q / sc\<rfloor> * sc;
          hi = lo + sc
      in if lo = q then q
         else if round_double lo = Fin q \<and> round_double hi = Fin q then
           (if q - lo < hi - q then lo
            else if hi - q < q - lo then hi
            else if even \<lfloor>q / sc\<rfloor> then lo else hi)
         else if round_double lo = Fin q then lo
         else if round_double hi = Fin q then hi
         else shortest (pred_numeral f) (Suc k) q)"
  by (simp add: numeral_eq_Suc)


























section \<open>How a whole number above \<open>2\<^sup>5\<^sup>3\<close> prints\<close>

text \<open>
  The whole number \<open>2\<^sup>6\<^sup>9 = 590295810358705651712\<close>: sixteen digits identify the double,
  and the five places that remain are filled with zeros.
\<close>

lemma dec_exp_2_69: "dec_exp 590295810358705651712 = 21"
proof -
  have "scale_exp 10 590295810358705651712 = 20"
    by (intro scale_exp_unique) (simp_all add: power_int_def)
  then show ?thesis by (simp add: dec_exp_def)
qed

lemma near69_lo_1: "round_double 500000000000000000000 = Fin 500000000000000000000"
  using round_double_eval(1)[of 500000000000000000000 68 7629394531250000]
  by (simp add: rd_simps)

lemma near69_hi_1: "round_double 600000000000000000000 = Fin 600000000000000000000"
  using round_double_eval(1)[of 600000000000000000000 69 4577636718750000]
  by (simp add: rd_simps)

lemma near69_lo_2: "round_double 590000000000000000000 = Fin 590000000000000000000"
  using round_double_eval(1)[of 590000000000000000000 68 9002685546875000]
  by (simp add: rd_simps)

lemma near69_hi_2: "round_double 600000000000000000000 = Fin 600000000000000000000"
  using round_double_eval(1)[of 600000000000000000000 69 4577636718750000]
  by (simp add: rd_simps)

lemma near69_lo_3: "round_double 590000000000000000000 = Fin 590000000000000000000"
  using round_double_eval(1)[of 590000000000000000000 68 9002685546875000]
  by (simp add: rd_simps)

lemma near69_hi_3: "round_double 591000000000000000000 = Fin 591000000000000000000"
  using round_double_eval(1)[of 591000000000000000000 69 4508972167968750]
  by (simp add: rd_simps)

lemma near69_lo_4: "round_double 590200000000000000000 = Fin 590200000000000000000"
  using round_double_eval(1)[of 590200000000000000000 68 9005737304687500]
  by (simp add: rd_simps)

lemma near69_hi_4: "round_double 590300000000000000000 = Fin 590300000000000000000"
  using round_double_eval(1)[of 590300000000000000000 69 4503631591796875]
  by (simp add: rd_simps)

lemma near69_lo_5: "round_double 590290000000000000000 = Fin 590290000000000000000"
  using round_double_eval(1)[of 590290000000000000000 68 9007110595703125]
  by (simp add: rd_simps)

lemma near69_hi_5: "round_double 590300000000000000000 = Fin 590300000000000000000"
  using round_double_eval(1)[of 590300000000000000000 69 4503631591796875]
  by (simp add: rd_simps)

lemma near69_lo_6: "round_double 590295000000000000000 = Fin 590295000000000032768"
  using round_double_eval(1)[of 590295000000000000000 68 9007186889648438]
  by (simp add: rd_simps)

lemma near69_hi_6: "round_double 590296000000000000000 = Fin 590296000000000000000"
  using round_double_eval(1)[of 590296000000000000000 69 4503601074218750]
  by (simp add: rd_simps)

lemma near69_lo_7: "round_double 590295800000000000000 = Fin 590295800000000032768"
  using round_double_eval(1)[of 590295800000000000000 68 9007199096679688]
  by (simp add: rd_simps)

lemma near69_hi_7: "round_double 590295900000000000000 = Fin 590295900000000016384"
  using round_double_eval(1)[of 590295900000000000000 69 4503600311279297]
  by (simp add: rd_simps)

lemma near69_lo_8: "round_double 590295810000000000000 = Fin 590295809999999991808"
  using round_double_eval(1)[of 590295810000000000000 68 9007199249267578]
  by (simp add: rd_simps)

lemma near69_hi_8: "round_double 590295820000000000000 = Fin 590295819999999950848"
  using round_double_eval(1)[of 590295820000000000000 69 4503599700927734]
  by (simp add: rd_simps)

lemma near69_lo_9: "round_double 590295810000000000000 = Fin 590295809999999991808"
  using round_double_eval(1)[of 590295810000000000000 68 9007199249267578]
  by (simp add: rd_simps)

lemma near69_hi_9: "round_double 590295811000000000000 = Fin 590295811000000053248"
  using round_double_eval(1)[of 590295811000000000000 69 4503599632263184]
  by (simp add: rd_simps)

lemma near69_lo_10: "round_double 590295810300000000000 = Fin 590295810300000010240"
  using round_double_eval(1)[of 590295810300000000000 68 9007199253845215]
  by (simp add: rd_simps)

lemma near69_hi_10: "round_double 590295810400000000000 = Fin 590295810400000016384"
  using round_double_eval(1)[of 590295810400000000000 69 4503599627685547]
  by (simp add: rd_simps)

lemma near69_lo_11: "round_double 590295810350000000000 = Fin 590295810349999980544"
  using round_double_eval(1)[of 590295810350000000000 68 9007199254608154]
  by (simp add: rd_simps)

lemma near69_hi_11: "round_double 590295810360000000000 = Fin 590295810359999987712"
  using round_double_eval(1)[of 590295810360000000000 69 4503599627380371]
  by (simp add: rd_simps)

lemma near69_lo_12: "round_double 590295810358000000000 = Fin 590295810358000025600"
  using round_double_eval(1)[of 590295810358000000000 68 9007199254730225]
  by (simp add: rd_simps)

lemma near69_hi_12: "round_double 590295810359000000000 = Fin 590295810359000039424"
  using round_double_eval(1)[of 590295810359000000000 69 4503599627372742]
  by (simp add: rd_simps)

lemma near69_lo_13: "round_double 590295810358700000000 = Fin 590295810358700015616"
  using round_double_eval(1)[of 590295810358700000000 68 9007199254740906]
  by (simp add: rd_simps)

lemma near69_hi_13: "round_double 590295810358800000000 = Fin 590295810358800023552"
  using round_double_eval(1)[of 590295810358800000000 69 4503599627371216]
  by (simp add: rd_simps)

lemma near69_lo_14: "round_double 590295810358700000000 = Fin 590295810358700015616"
  using round_double_eval(1)[of 590295810358700000000 68 9007199254740906]
  by (simp add: rd_simps)

lemma near69_hi_14: "round_double 590295810358710000000 = Fin 590295810358709977088"
  using round_double_eval(1)[of 590295810358710000000 69 4503599627370529]
  by (simp add: rd_simps)

lemma near69_lo_15: "round_double 590295810358705000000 = Fin 590295810358704996352"
  using round_double_eval(1)[of 590295810358705000000 68 9007199254740982]
  by (simp add: rd_simps)

lemma near69_hi_15: "round_double 590295810358706000000 = Fin 590295810358706044928"
  using round_double_eval(1)[of 590295810358706000000 69 4503599627370499]
  by (simp add: rd_simps)

lemma near69_lo_16: "round_double 590295810358705600000 = Fin 590295810358705586176"
  using round_double_eval(1)[of 590295810358705600000 68 9007199254740991]
  by (simp add: rd_simps)

lemma near69_hi_16: "round_double 590295810358705700000 = Fin 590295810358705651712"
  using round_double_eval(1)[of 590295810358705700000 69 4503599627370496]
  by (simp add: rd_simps)

lemma shortest_2_69: "shortest 17 1 590295810358705651712 = 590295810358705700000"
proof -
  have "shortest 17 1 590295810358705651712 = shortest 16 2 590295810358705651712"
    by (subst shortest_numeral) (simp add: Let_def dec_exp_2_69 power_int_def near69_lo_1 near69_hi_1 numeral_2_eq_2[symmetric])
  also have "\<dots> = shortest 15 3 590295810358705651712"
    by (subst shortest_numeral) (simp add: Let_def dec_exp_2_69 power_int_def near69_lo_2 near69_hi_2)
  also have "\<dots> = shortest 14 4 590295810358705651712"
    by (subst shortest_numeral) (simp add: Let_def dec_exp_2_69 power_int_def near69_lo_3 near69_hi_3)
  also have "\<dots> = shortest 13 5 590295810358705651712"
    by (subst shortest_numeral) (simp add: Let_def dec_exp_2_69 power_int_def near69_lo_4 near69_hi_4)
  also have "\<dots> = shortest 12 6 590295810358705651712"
    by (subst shortest_numeral) (simp add: Let_def dec_exp_2_69 power_int_def near69_lo_5 near69_hi_5)
  also have "\<dots> = shortest 11 7 590295810358705651712"
    by (subst shortest_numeral) (simp add: Let_def dec_exp_2_69 power_int_def near69_lo_6 near69_hi_6)
  also have "\<dots> = shortest 10 8 590295810358705651712"
    by (subst shortest_numeral) (simp add: Let_def dec_exp_2_69 power_int_def near69_lo_7 near69_hi_7)
  also have "\<dots> = shortest 9 9 590295810358705651712"
    by (subst shortest_numeral) (simp add: Let_def dec_exp_2_69 power_int_def near69_lo_8 near69_hi_8)
  also have "\<dots> = shortest 8 10 590295810358705651712"
    by (subst shortest_numeral) (simp add: Let_def dec_exp_2_69 power_int_def near69_lo_9 near69_hi_9)
  also have "\<dots> = shortest 7 11 590295810358705651712"
    by (subst shortest_numeral) (simp add: Let_def dec_exp_2_69 power_int_def near69_lo_10 near69_hi_10)
  also have "\<dots> = shortest 6 12 590295810358705651712"
    by (subst shortest_numeral) (simp add: Let_def dec_exp_2_69 power_int_def near69_lo_11 near69_hi_11)
  also have "\<dots> = shortest 5 13 590295810358705651712"
    by (subst shortest_numeral) (simp add: Let_def dec_exp_2_69 power_int_def near69_lo_12 near69_hi_12)
  also have "\<dots> = shortest 4 14 590295810358705651712"
    by (subst shortest_numeral) (simp add: Let_def dec_exp_2_69 power_int_def near69_lo_13 near69_hi_13)
  also have "\<dots> = shortest 3 15 590295810358705651712"
    by (subst shortest_numeral) (simp add: Let_def dec_exp_2_69 power_int_def near69_lo_14 near69_hi_14)
  also have "\<dots> = shortest 2 16 590295810358705651712"
    by (subst shortest_numeral) (simp add: Let_def dec_exp_2_69 power_int_def near69_lo_15 near69_hi_15)
  also have "\<dots> = 590295810358705700000"
    by (subst shortest_numeral) (simp add: Let_def dec_exp_2_69 power_int_def near69_lo_16 near69_hi_16)
  finally show ?thesis .
qed

lemma print_2_69: "number_to_string (Fin (2 ^ 69)) = ''590295810358705700000''"
proof -
  have "format_pos (of_int 590295810358705700000) = digits_of 590295810358705700000"
    by (rule format_pos_int) simp_all
  then have "format_pos 590295810358705700000 = ''590295810358705700000''"
    by (simp add: digits_of_numeral digit_char_def)
  moreover have "number_to_string (Fin 590295810358705651712)
      = format_pos (shortest 17 1 590295810358705651712)"
    by simp
  ultimately show ?thesis
    by (simp only: shortest_2_69) simp
qed

lemma digits_2_69: "digits_of (2 ^ 69) = ''590295810358705651712''"
  by (simp add: digits_of_numeral digit_char_def)


section \<open>Claims\<close>

subsection \<open>C1: the render path\<close>






subsection \<open>C4 and C5: contours\<close>

lemma getContours_loop_inv:
  "getContours_loop pts cs cur = (cs', cur') \<Longrightarrow>
     concat cs' @ cur' = concat cs @ cur @ pts \<and>
     length cs' = length cs + length (filter lastPointOfContour pts) \<and>
     (cur' = [] \<longleftrightarrow> (if pts = [] then cur = [] else lastPointOfContour (last pts)))"
proof (induction pts arbitrary: cs cur)
  case Nil
  then show ?case by simp
next
  case (Cons pt pts)
  show ?case
  proof (cases "lastPointOfContour pt")
    case True
    with Cons.prems have "getContours_loop pts (cs @ [cur @ [pt]]) [] = (cs', cur')"
      by (simp add: Let_def)
    from Cons.IH[OF this] True show ?thesis
      by auto
  next
    case False
    with Cons.prems have "getContours_loop pts cs (cur @ [pt]) = (cs', cur')"
      by (simp add: Let_def)
    from Cons.IH[OF this] False show ?thesis
      by auto
  qed
qed

text \<open>
  Claim C4: for a glyph whose point list has \<open>N\<close> points, \<open>k\<close> of them flagged
  \<open>lastPointOfContour\<close>, the last point among these, \<open>getContours\<close> returns exactly \<open>k\<close>
  contours whose concatenation in order is the point list; without a point list it
  returns the empty list of contours and does not fail.
\<close>

theorem getContours_partition:
  "(points g = None \<longrightarrow> getContours g = Inr []) \<and>
   (points g = Some pts \<and> (pts = [] \<or> lastPointOfContour (last pts)) \<longrightarrow>
      (\<exists>cs. getContours g = Inr cs \<and>
            length cs = length (filter lastPointOfContour pts) \<and>
            concat cs = pts))"
proof (intro conjI impI)
  assume "points g = None"
  then show "getContours g = Inr []"
    by (simp add: getContours_def)
next
  assume a: "points g = Some pts \<and> (pts = [] \<or> lastPointOfContour (last pts))"
  obtain cs cur where l: "getContours_loop pts [] [] = (cs, cur)"
    by (cases "getContours_loop pts [] []")
  from getContours_loop_inv[OF l] a have "cur = []" "concat cs = pts"
    "length cs = length (filter lastPointOfContour pts)"
    by auto
  with a l show "\<exists>cs. getContours g = Inr cs \<and>
            length cs = length (filter lastPointOfContour pts) \<and> concat cs = pts"
    by (simp add: getContours_def check_argument_def)
qed

theorem getContours_partition_witness:
  "points (empty_glyph\<lparr>points := Some three_points\<rparr>) = Some three_points \<and>
   lastPointOfContour (last three_points) \<and>
   length (filter lastPointOfContour three_points) = 2 \<and>
   getContours (empty_glyph\<lparr>points := Some three_points\<rparr>)
     = Inr [take 2 three_points, drop 2 three_points] \<and>
   points empty_glyph = None \<and> getContours empty_glyph = Inr []"
  using getContours_partition[of "empty_glyph\<lparr>points := Some three_points\<rparr>" three_points]
    getContours_partition[of empty_glyph three_points]
  by (simp add: three_points_def getContours_def check_argument_def empty_glyph_def Glyph_def)

text \<open>
  Claim C5: when the scan of the point list leaves a non-empty group in progress, which
  is the case exactly when the list is not empty and its last point is not flagged
  \<open>lastPointOfContour\<close>, \<open>getContours\<close> raises the error with the message of the source
  and produces no contours; whenever it does return contours, they hold all the points.
\<close>

theorem getContours_leftover:
  assumes "points g = Some pts"
  shows "(snd (getContours_loop pts [] []) \<noteq> [] \<longleftrightarrow> pts \<noteq> [] \<and> \<not> lastPointOfContour (last pts)) \<and>
         (snd (getContours_loop pts [] []) \<noteq> [] \<longrightarrow>
            getContours g = Inl (Error ''There are still points left in the current contour.'')) \<and>
         (\<forall>cs. getContours g = Inr cs \<longrightarrow> concat cs = pts)"
proof -
  obtain cs cur where l: "getContours_loop pts [] [] = (cs, cur)"
    by (cases "getContours_loop pts [] []")
  from getContours_loop_inv[OF l]
  have inv: "concat cs @ cur = pts"
    "cur = [] \<longleftrightarrow> pts = [] \<or> lastPointOfContour (last pts)"
    by (auto split: if_splits)
  show ?thesis
    using assms l inv by (auto simp: getContours_def check_argument_def)
qed

theorem getContours_leftover_witness:
  "points (empty_glyph\<lparr>points := Some open_points\<rparr>) = Some open_points \<and>
   snd (getContours_loop open_points [] []) = drop 1 open_points \<and>
   open_points \<noteq> [] \<and> \<not> lastPointOfContour (last open_points) \<and>
   getContours (empty_glyph\<lparr>points := Some open_points\<rparr>)
     = Inl (Error ''There are still points left in the current contour.'')"
  using getContours_leftover[of "empty_glyph\<lparr>points := Some open_points\<rparr>" open_points]
  by (simp add: open_points_def)

subsection \<open>C8: replay into a drawing context\<close>

lemma draw_commands_fold:
  "draw_commands ctx cmds s = foldl (\<lambda>s c. ctx c s) s (map cmd_call cmds)"
  by (induction ctx cmds s rule: draw_commands.induct) simp_all

lemma draw_fold: "draw ctx p s = foldl (\<lambda>s c. ctx c s) s (draw_calls p)"
  by (simp add: draw_def draw_calls_def draw_commands_fold Let_def)

lemma foldl_recording:
  "foldl (\<lambda>s c. recording ctx c s) (s, tr) cs = (foldl (\<lambda>s c. ctx c s) s cs, tr @ cs)"
  by (induction cs arbitrary: s tr) (simp_all add: recording_def)

text \<open>
  Claim C8: \<open>draw\<close> issues, after the opening \<open>beginPath\<close>, one primitive call per command,
  in the order of the commands and with their coordinates, then the fill style and
  \<open>fill\<close> if and only if \<open>fill\<close> is set, then the stroke style, the line width and
  \<open>stroke\<close> if and only if \<open>stroke\<close> is set. The sequence depends on the path alone:
  whatever two contexts do with the calls, and in whatever state they start, both receive
  \<open>draw_calls p\<close>.
\<close>

theorem draw_call_sequence:
  "draw (recording ctx) p (s, []) = (draw ctx p s, draw_calls p) \<and>
   snd (draw (recording ctx) p (s, [])) = snd (draw (recording ctx') p (s', [])) \<and>
   draw ctx p s = foldl (\<lambda>s c. ctx c s) s (draw_calls p) \<and>
   draw_calls p =
     [BeginPath] @ map cmd_call (commands p) @
     (if truthy (fill p) then [Set_fillStyle (the (fill p)), Fill] else []) @
     (if truthy (stroke p)
      then [Set_strokeStyle (the (stroke p)), Set_lineWidth (strokeWidth p), Stroke] else [])"
  by (simp add: draw_fold foldl_recording) (simp add: draw_calls_def)

subsection \<open>C10: the initialiser of \<open>unicodes\<close>\<close>

text \<open>
  Claim C10: the constructor reads \<open>options.unicodes || options.unicode !== undefined\<close>
  as the condition. Whenever \<open>unicodes\<close> is passed or \<open>unicode\<close> is defined, the glyph's
  \<open>unicodes\<close> is the one-element list \<open>[options.unicode]\<close>; the list that was passed is not
  stored, and passing \<open>unicodes\<close> without \<open>unicode\<close> gives \<open>[undefined]\<close>. Only when both are
  absent is \<open>unicodes\<close> empty.
\<close>

theorem Glyph_unicodes:
  "(opt_unicodes opts \<noteq> None \<or> opt_unicode opts \<noteq> None \<longrightarrow>
      unicodes (Glyph opts) = [opt_unicode opts]) \<and>
   (opt_unicodes opts \<noteq> None \<and> opt_unicode opts = None \<longrightarrow> unicodes (Glyph opts) = [None]) \<and>
   (unicodes (Glyph opts) = [] \<longleftrightarrow> opt_unicodes opts = None \<and> opt_unicode opts = None)"
  by (simp add: Glyph_def)

theorem Glyph_unicodes_witness:
  "opt_unicodes (no_options\<lparr>opt_unicodes := Some [65, 66]\<rparr>) \<noteq> None \<and>
   opt_unicode (no_options\<lparr>opt_unicodes := Some [65, 66]\<rparr>) = None \<and>
   unicodes (Glyph (no_options\<lparr>opt_unicodes := Some [65, 66]\<rparr>)) = [None] \<and>
   unicodes (Glyph (no_options\<lparr>opt_unicodes := Some [65, 66], opt_unicode := Some 65\<rparr>)) = [Some 65] \<and>
   unicodes (Glyph no_options) = []"
  using Glyph_unicodes[of "no_options\<lparr>opt_unicodes := Some [65, 66]\<rparr>"]
    Glyph_unicodes[of "no_options\<lparr>opt_unicodes := Some [65, 66], opt_unicode := Some 65\<rparr>"]
    Glyph_unicodes[of no_options]
  by (simp add: no_options_def)

subsection \<open>C3 and C9: metrics\<close>

lemma getMetrics_loop_collect:
  "getMetrics_loop cmds xs ys = (xs @ concat (map cmd_xs cmds), ys @ concat (map cmd_ys cmds))"
  by (induction cmds xs ys rule: getMetrics_loop.induct) simp_all

lemma foldl_min_step_Fin:
  "foldl min_step (Fin a) (map Fin qs) = Fin (Min (insert a (set qs)))"
proof (induction qs arbitrary: a)
  case Nil
  then show ?case by simp
next
  case (Cons q qs)
  have step: "min_step (Fin a) (Fin q) = Fin (min a q)"
    by (simp add: min_step_def min_def)
  have "Min (insert (min a q) (set qs)) = Min (insert a (insert q (set qs)))"
    by (cases "set qs = {}") (simp_all add: min.assoc)
  with step Cons.IH[of "min a q"] show ?case
    by simp
qed

lemma Math_min_Fin: "qs \<noteq> [] \<Longrightarrow> Math_min (map Fin qs) = Fin (Min (set qs))"
  by (cases qs) (simp_all add: Math_min_def min_step_def foldl_min_step_Fin)

lemma foldl_max_step_Fin:
  "foldl max_step (Fin a) (map Fin qs) = Fin (Max (insert a (set qs)))"
proof (induction qs arbitrary: a)
  case Nil
  then show ?case by simp
next
  case (Cons q qs)
  have step: "max_step (Fin a) (Fin q) = Fin (max a q)"
    by (simp add: max_step_def max_def)
  have "Max (insert (max a q) (set qs)) = Max (insert a (insert q (set qs)))"
    by (cases "set qs = {}") (simp_all add: max.assoc)
  with step Cons.IH[of "max a q"] show ?case
    by simp
qed

lemma Math_max_Fin: "qs \<noteq> [] \<Longrightarrow> Math_max (map Fin qs) = Fin (Max (set qs))"
  by (cases qs) (simp_all add: Math_max_def max_step_def foldl_max_step_Fin)

lemma square_glyph_metrics:
  "getMetrics square_glyph =
     Inr \<lparr>xMin = Fin 0, yMin = Fin 0, xMax = Fin 10, yMax = Fin 10,
          leftSideBearing = Fin 0, rightSideBearing = Fin 2\<rparr>"
  by (simp add: getMetrics_def square_glyph_def Glyph_def no_options_def num_or_zero_def
      moveTo_def lineTo_def closePath_def Path_def Math_min_def Math_max_def min_step_def max_step_def)

text \<open>
  Claim C3: for every glyph (with a path), \<open>getMetrics\<close> collects \<open>x\<close> and \<open>y\<close> of every
  command that is not Close, \<open>x1, y1\<close> of Quad and Cubic commands and \<open>x2, y2\<close> of Cubic
  commands; \<open>xMin\<close>, \<open>yMin\<close>, \<open>xMax\<close>, \<open>yMax\<close> are the minimum and the maximum of
  the collected values (\<open>Math.min\<close> and \<open>Math.max\<close>, which on a non-empty list of finite
  numbers are the least and the greatest one); \<open>leftSideBearing\<close> is 0 and
  \<open>rightSideBearing = advanceWidth - leftSideBearing - (xMax - xMin)\<close>. The outline
  \<open>Move(0,0), Line(10,0), Line(10,10), Line(0,10), Close\<close> with advance width 12 has
  \<open>xMin = 0, xMax = 10, yMin = 0, yMax = 10\<close>, left side bearing 0, right side bearing 2.
\<close>

theorem getMetrics_reductions:
  "(path g = Some p \<longrightarrow>
      (\<exists>m. getMetrics g = Inr m \<and>
           xMin m = Math_min (concat (map cmd_xs (commands p))) \<and>
           yMin m = Math_min (concat (map cmd_ys (commands p))) \<and>
           xMax m = Math_max (concat (map cmd_xs (commands p))) \<and>
           yMax m = Math_max (concat (map cmd_ys (commands p))) \<and>
           leftSideBearing m = Fin 0 \<and>
           rightSideBearing m =
             jsub (jsub (advanceWidth g) (leftSideBearing m)) (jsub (xMax m) (xMin m)))) \<and>
   (qs \<noteq> [] \<longrightarrow> Math_min (map Fin qs) = Fin (Min (set qs)) \<and>
                 Math_max (map Fin qs) = Fin (Max (set qs))) \<and>
   getMetrics square_glyph =
     Inr \<lparr>xMin = Fin 0, yMin = Fin 0, xMax = Fin 10, yMax = Fin 10,
          leftSideBearing = Fin 0, rightSideBearing = Fin 2\<rparr>"
  by (simp add: square_glyph_metrics Math_min_Fin Math_max_Fin)
     (simp add: getMetrics_def getMetrics_loop_collect)

theorem getMetrics_reductions_witness:
  "path square_glyph =
     Some (Path\<lparr>commands := [Cmd_M (Fin 0) (Fin 0), Cmd_L (Fin 10) (Fin 0), Cmd_L (Fin 10) (Fin 10),
                               Cmd_L (Fin 0) (Fin 10), Cmd_Z]\<rparr>) \<and>
   (\<exists>m. getMetrics square_glyph = Inr m \<and>
        xMin m = Math_min [Fin 0, Fin 10, Fin 10, Fin 0] \<and>
        xMax m = Math_max [Fin 0, Fin 10, Fin 10, Fin 0] \<and>
        xMin m = Fin (Min {0, 10}) \<and> xMax m = Fin (Max {0, 10}))"
proof -
  have p: "path square_glyph =
     Some (Path\<lparr>commands := [Cmd_M (Fin 0) (Fin 0), Cmd_L (Fin 10) (Fin 0), Cmd_L (Fin 10) (Fin 10),
                               Cmd_L (Fin 0) (Fin 10), Cmd_Z]\<rparr>)"
    by (simp add: square_glyph_def Glyph_def no_options_def moveTo_def lineTo_def closePath_def Path_def)
  from getMetrics_reductions[of square_glyph
      "Path\<lparr>commands := [Cmd_M (Fin 0) (Fin 0), Cmd_L (Fin 10) (Fin 0), Cmd_L (Fin 10) (Fin 10),
                           Cmd_L (Fin 0) (Fin 10), Cmd_Z]\<rparr>" "[0, 10, 10, 0]"] p
  show ?thesis
    by (simp add: Path_def)
qed

text \<open>
  Claim C9 says that a path without a coordinate-bearing command gives an undefined or
  NaN bounding box. \<open>Math.min\<close> and \<open>Math.max\<close> of no arguments are \<open>+\<infinity>\<close> and \<open>-\<infinity>\<close>:
  the box of the empty path is \<open>xMin = yMin = Infinity\<close>, \<open>xMax = yMax = -Infinity\<close>, neither
  undefined nor NaN.
\<close>

theorem getMetrics_empty_infinite:
  "getMetrics empty_glyph =
     Inr \<lparr>xMin = PInf, yMin = PInf, xMax = NInf, yMax = NInf,
          leftSideBearing = Fin 0, rightSideBearing = PInf\<rparr> \<and>
   PInf \<noteq> NaN \<and> NInf \<noteq> NaN"
  by (simp add: getMetrics_def empty_glyph_def Glyph_def no_options_def num_or_zero_def
      Path_def Math_min_def Math_max_def)

lemma no_coordinates:
  "list_all (\<lambda>c. c = Cmd_Z) cmds \<Longrightarrow> concat (map cmd_xs cmds) = [] \<and> concat (map cmd_ys cmds) = []"
  by (induction cmds) auto

text \<open>
  Claim C9, amended: for every glyph whose path has no command or only Close commands,
  \<open>getMetrics\<close> raises no error and returns \<open>xMin = yMin = +\<infinity>\<close> and \<open>xMax = yMax = -\<infinity>\<close>,
  values that are not finite and not NaN, not a numeric fallback such as 0.
\<close>

theorem getMetrics_no_coordinates:
  assumes "path g = Some p" and "list_all (\<lambda>c. c = Cmd_Z) (commands p)"
  shows "\<exists>m. getMetrics g = Inr m \<and>
           xMin m = PInf \<and> yMin m = PInf \<and> xMax m = NInf \<and> yMax m = NInf \<and>
           leftSideBearing m = Fin 0 \<and>
           rightSideBearing m = jsub (jsub (advanceWidth g) (Fin 0)) NInf"
proof -
  from no_coordinates[OF assms(2)]
  have xs: "concat (map cmd_xs (commands p)) = []" and ys: "concat (map cmd_ys (commands p)) = []"
    by blast+
  show ?thesis
    using assms(1)
    by (simp add: getMetrics_def getMetrics_loop_collect Math_min_def Math_max_def xs ys)
qed

theorem getMetrics_no_coordinates_witness:
  "path (empty_glyph\<lparr>path := Some (closePath (closePath Path))\<rparr>) = Some (closePath (closePath Path)) \<and>
   list_all (\<lambda>c. c = Cmd_Z) (commands (closePath (closePath Path))) \<and>
   (\<exists>m. getMetrics (empty_glyph\<lparr>path := Some (closePath (closePath Path))\<rparr>) = Inr m \<and>
        xMin m = PInf \<and> yMin m = PInf \<and> xMax m = NInf \<and> yMax m = NInf)"
  using getMetrics_no_coordinates[of "empty_glyph\<lparr>path := Some (closePath (closePath Path))\<rparr>"
      "closePath (closePath Path)"]
  by (auto simp add: closePath_def Path_def)


subsection \<open>C2: the SVG element\<close>

lemma s2n_red: "string_to_number ''red'' = NaN"
  by (simp add: string_to_number_def trim_def is_ws_def unsigned_decimal_def is_digit_def digit_val_def Let_def)

lemma s2n_1: "string_to_number ''1'' = Fin 1"
  by (simp add: string_to_number_def trim_def is_ws_def unsigned_decimal_def is_digit_def digit_val_def Let_def
      exponent_part_def digits_val_def)

text \<open>
  Claim C2 asks \<open>toSVG\<close> to emit a fill attribute exactly when \<open>fill\<close> is not the default
  \<open>'black'\<close>, \<open>fill="none"\<close> for \<open>null\<close> and the colour otherwise, and the two branches
  of the code are written for that. Its guard, though, is a bitwise \<open>&\<close>: \<open>ToInt32\<close> of a
  colour name and of \<open>null\<close> is 0, so the code emits no fill attribute for \<open>'red'\<close> nor
  for \<open>null\<close>, against the claim. A fill attribute appears only for a \<open>fill\<close> that reads
  as a number whose integer part is odd, such as \<open>'1'\<close>.
\<close>

theorem toSVG_fill_dropped:
  \<open>toSVG None (Path\<lparr>fill := Some ''red''\<rparr>) = Inr ''<path d=""/>'' \<and>
   toSVG None (Path\<lparr>fill := None\<rparr>) = Inr ''<path d=""/>'' \<and>
   toSVG None (Path\<lparr>fill := Some ''1''\<rparr>) = Inr ''<path d="" fill="1"/>''\<close>
  by (simp add: toSVG_def toPathData_def Path_def fill_to_number_def s2n_red s2n_1 truthy_def)


subsection \<open>C6 and C7: path data\<close>

text \<open>
  Claim C6 says that every whole coordinate is printed without a decimal point. A whole
  number from \<open>10\<^sup>2\<^sup>1\<close> on is printed by \<open>'' + Math.round(v)\<close> in exponent notation, and
  with more than one significant digit that has a decimal point: the double
  \<open>1.5 \<times> 10\<^sup>2\<^sup>1\<close> comes out as \<open>1.5e+21\<close>.
\<close>

theorem toPathData_whole_with_point:
  "toPathData None huge_path = Inr ''M1.5e+21 0'' \<and>
   commands huge_path = [Cmd_M (Fin (15 * 10 ^ 20)) (Fin 0)] \<and>
   of_int \<lfloor>15 * 10 ^ 20 :: rat\<rfloor> = (15 * 10 ^ 20 :: rat) \<and>
   round_double (15 * 10 ^ 20) = Fin (15 * 10 ^ 20) \<and>
   CHR ''.'' \<in> set ''M1.5e+21 0''"
proof -
  have "round_double (15 * 10 ^ 20) = Fin (15 * 10 ^ 20)"
    using round_double_eval(1)[of "15 * 10 ^ 20" 70 "15 * 10 ^ 20 div 2 ^ 18"]
    by (simp add: rd_simps)
  then show ?thesis
    using huge_path_text by (simp add: huge_path_def moveTo_def Path_def)
qed

lemma big_path_text: "toPathData None big_path = Inr ''M590295810358705700000 0''"
proof -
  have "floatToString 2 (Fin (of_int (2 ^ 69))) = Inr (number_to_string (Fin (of_int (2 ^ 69))))"
    by (rule floatToString_int)
  then have "floatToString 2 (Fin (2 ^ 69)) = Inr ''590295810358705700000''"
    using print_2_69 by (simp del: number_to_string.simps)
  then show ?thesis
    by (simp add: toPathData_def big_path_def moveTo_def Path_def packValues_def floatToString_small
          jge_def del: number_to_string.simps)
qed

lemma special_path_text: "toPathData None special_path = Inr ''MNaN 0LInfinity-Infinity''"
  by (simp add: toPathData_def special_path_def moveTo_def lineTo_def Path_def packValues_def
        floatToString_special jge_def)

text \<open>
  Claim C6, amended: whenever \<open>toPathData\<close> returns, every coordinate is printed as
  follows. A whole number of magnitude up to \<open>2\<^sup>5\<^sup>3\<close> is printed as its decimal digits,
  after a minus sign when it is negative, with no decimal point; \<open>-0\<close> is printed as \<open>0\<close>.
  A whole number of magnitude below \<open>10\<^sup>2\<^sup>1\<close> is printed as a string of decimal digits,
  after a minus sign when it is negative, with no decimal point; above \<open>2\<^sup>5\<^sup>3\<close> these need
  not be the digits of the number: \<open>2\<^sup>6\<^sup>9 = 590295810358705651712\<close> is printed as
  \<open>590295810358705700000\<close>. A finite number of magnitude below \<open>10\<^sup>2\<^sup>1\<close> that is not whole
  is printed with exactly \<open>decimalPlaces\<close> digits after the point (and with no point when
  \<open>decimalPlaces\<close> is 0), \<open>decimalPlaces\<close> being 2 by default and between 0 and 100, since
  otherwise \<open>toFixed\<close> raises a RangeError and nothing is returned. A number of magnitude
  \<open>10\<^sup>2\<^sup>1\<close> or more is printed in exponent notation: after the minus sign of a negative
  number a mantissa of one digit, or of one digit, a point and more digits, then \<open>e+\<close> and
  the decimal exponent, which is at least 21. NaN is printed as \<open>NaN\<close>, again with
  \<open>decimalPlaces\<close> between 0 and 100, and the infinities as \<open>Infinity\<close> and \<open>-Infinity\<close>.
\<close>

theorem toPathData_number_format:
  assumes "toPathData decimalPlaces p = Inr d"
    and "cmd \<in> set (commands p)" and "v \<in> set (cmd_values cmd)"
  shows "d = path_text (places decimalPlaces) (commands p) \<and>
         (\<exists>t. floatToString (places decimalPlaces) v = Inr t \<and>
              coord_text (places decimalPlaces) v = t \<and>
              (v = NaN \<longrightarrow> t = ''NaN'' \<and> 0 \<le> places decimalPlaces \<and> places decimalPlaces \<le> 100) \<and>
              (v = PInf \<longrightarrow> t = ''Infinity'') \<and>
              (v = NInf \<longrightarrow> t = ''-Infinity'') \<and>
              (v = NZero \<longrightarrow> t = ''0'') \<and>
              (v = Fin q \<longrightarrow>
                 (of_int \<lfloor>q\<rfloor> = q \<and> \<bar>q\<bar> \<le> 2 ^ 53 \<longrightarrow>
                    t = (if q < 0 then ''-'' else []) @ digits_of \<bar>\<lfloor>q\<rfloor>\<bar>) \<and>
                 (of_int \<lfloor>q\<rfloor> = q \<and> \<bar>q\<bar> < 10 ^ 21 \<longrightarrow>
                    (\<exists>ds. t = (if q < 0 then ''-'' else []) @ ds \<and> digit_string ds)) \<and>
                 (of_int \<lfloor>q\<rfloor> \<noteq> q \<and> \<bar>q\<bar> < 10 ^ 21 \<longrightarrow>
                    0 \<le> places decimalPlaces \<and> places decimalPlaces \<le> 100 \<and>
                    (\<exists>a b. t = (if q < 0 then ''-'' else []) @ a @
                                  (if places decimalPlaces = 0 then [] else ''.'' @ b) \<and>
                           digit_string a \<and> length b = nat (places decimalPlaces) \<and>
                           list_all dec_digit b)) \<and>
                 (10 ^ 21 \<le> \<bar>q\<bar> \<longrightarrow>
                    (\<exists>m e. t = (if q < 0 then ''-'' else []) @ m @ ''e+'' @ digits_of e \<and>
                           mantissa m \<and> 21 \<le> e)))) \<and>
         toPathData None big_path = Inr ''M590295810358705700000 0'' \<and>
         commands big_path = [Cmd_M (Fin (2 ^ 69)) (Fin 0)] \<and>
         digits_of (2 ^ 69) = ''590295810358705651712''"
proof -
  let ?f = "places decimalPlaces"
  from assms(1) have d: "d = path_text ?f (commands p)"
    and ok: "\<forall>c \<in> set (commands p). list_all (\<lambda>v. \<not> isl (floatToString ?f v)) (cmd_values c)"
    by (simp_all add: toPathData_Inr)
  from ok assms(2,3) have "\<not> isl (floatToString ?f v)"
    by (auto simp: list_all_iff)
  then obtain t where t: "floatToString ?f v = Inr t"
    by (cases "floatToString ?f v") auto
  then have ct: "coord_text ?f v = t"
    by (simp add: coord_text_def)
  have nan: "t = ''NaN'' \<and> 0 \<le> ?f \<and> ?f \<le> 100" if "v = NaN"
    using t that by (simp add: floatToString_special split: if_splits)
  have special: "v = PInf \<longrightarrow> t = ''Infinity''" "v = NInf \<longrightarrow> t = ''-Infinity''"
      "v = NZero \<longrightarrow> t = ''0''"
    using t by (auto simp: floatToString_special)
  have safe: "t = (if q < 0 then ''-'' else []) @ digits_of \<bar>\<lfloor>q\<rfloor>\<bar>"
    if "v = Fin q" "of_int \<lfloor>q\<rfloor> = q" "\<bar>q\<bar> \<le> 2 ^ 53" for q
    using floatToString_safe[OF that(2,3), of ?f] t that(1) by simp
  have whole: "\<exists>ds. t = (if q < 0 then ''-'' else []) @ ds \<and> digit_string ds"
    if v: "v = Fin q" and w: "of_int \<lfloor>q\<rfloor> = q" and small: "\<bar>q\<bar> < 10 ^ 21" for q
  proof -
    have "\<bar>of_int \<lfloor>q\<rfloor> :: rat\<bar> < 10 ^ 21"
      unfolding w by (rule small)
    then have "(of_int \<bar>\<lfloor>q\<rfloor>\<bar> :: rat) < of_int (10 ^ 21)"
      by simp
    then have "\<bar>\<lfloor>q\<rfloor>\<bar> < 10 ^ 21"
      by (simp only: of_int_less_iff)
    from floatToString_whole[OF this, of ?f] w t v show ?thesis
      by (auto split: if_splits)
  qed
  have frac: "0 \<le> ?f \<and> ?f \<le> 100 \<and>
      (\<exists>a b. t = (if q < 0 then ''-'' else []) @ a @ (if ?f = 0 then [] else ''.'' @ b) \<and>
             digit_string a \<and> length b = nat ?f \<and> list_all dec_digit b)"
    if v: "v = Fin q" and w: "of_int \<lfloor>q\<rfloor> \<noteq> q" and small: "\<bar>q\<bar> < 10 ^ 21" for q
  proof -
    from floatToString_fraction[OF w, of ?f] t v have tf: "toFixed ?f (Fin q) = Inr t"
      by simp
    then have r: "0 \<le> ?f" "?f \<le> 100"
      using toFixed_range by blast+
    from toFixed_shape[OF r small] tf r show ?thesis
      by auto
  qed
  have large: "\<exists>m e. t = (if q < 0 then ''-'' else []) @ m @ ''e+'' @ digits_of e \<and> mantissa m \<and> 21 \<le> e"
    if v: "v = Fin q" and big: "10 ^ 21 \<le> \<bar>q\<bar>" for q
    using floatToString_large[OF big, of ?f t] t v by simp
  have fin: "v = Fin q \<longrightarrow>
                 (of_int \<lfloor>q\<rfloor> = q \<and> \<bar>q\<bar> \<le> 2 ^ 53 \<longrightarrow>
                    t = (if q < 0 then ''-'' else []) @ digits_of \<bar>\<lfloor>q\<rfloor>\<bar>) \<and>
                 (of_int \<lfloor>q\<rfloor> = q \<and> \<bar>q\<bar> < 10 ^ 21 \<longrightarrow>
                    (\<exists>ds. t = (if q < 0 then ''-'' else []) @ ds \<and> digit_string ds)) \<and>
                 (of_int \<lfloor>q\<rfloor> \<noteq> q \<and> \<bar>q\<bar> < 10 ^ 21 \<longrightarrow>
                    0 \<le> ?f \<and> ?f \<le> 100 \<and>
                    (\<exists>a b. t = (if q < 0 then ''-'' else []) @ a @
                                  (if ?f = 0 then [] else ''.'' @ b) \<and>
                           digit_string a \<and> length b = nat ?f \<and>
                           list_all dec_digit b)) \<and>
                 (10 ^ 21 \<le> \<bar>q\<bar> \<longrightarrow>
                    (\<exists>m e. t = (if q < 0 then ''-'' else []) @ m @ ''e+'' @ digits_of e \<and>
                           mantissa m \<and> 21 \<le> e))"
    using safe whole frac large by blast
  have ex: "commands big_path = [Cmd_M (Fin (2 ^ 69)) (Fin 0)]"
    by (simp add: big_path_def moveTo_def Path_def)
  show ?thesis
    using d t ct nan special fin big_path_text ex digits_2_69 by blast
qed

theorem toPathData_number_format_witness:
  "toPathData None data_path = Inr ''M1-2L3 0Q-1-1 2 1.50Z'' \<and>
   Cmd_Q (Fin (- 1)) (Fin (- 1)) (Fin 2) (Fin (3 / 2)) \<in> set (commands data_path) \<and>
   coord_text 2 (Fin (3 / 2)) = ''1.50'' \<and>
   (\<exists>a b. coord_text 2 (Fin (3 / 2)) = a @ ''.'' @ b \<and> digit_string a \<and> length b = 2 \<and>
          list_all dec_digit b) \<and>
   coord_text 2 (Fin (- 1)) = ''-1'' \<and>
   coord_text 2 (Fin (- 1)) = ''-'' @ digits_of 1 \<and>
   toPathData None huge_path = Inr ''M1.5e+21 0'' \<and>
   Cmd_M (Fin (15 * 10 ^ 20)) (Fin 0) \<in> set (commands huge_path) \<and>
   coord_text 2 (Fin (15 * 10 ^ 20)) = ''1.5e+21'' \<and>
   (\<exists>m e. coord_text 2 (Fin (15 * 10 ^ 20)) = m @ ''e+'' @ digits_of e \<and> mantissa m \<and> 21 \<le> e) \<and>
   toPathData None special_path = Inr ''MNaN 0LInfinity-Infinity'' \<and>
   commands special_path = [Cmd_M NaN NZero, Cmd_L PInf NInf] \<and>
   coord_text 2 NaN = ''NaN'' \<and> coord_text 2 NZero = ''0'' \<and>
   coord_text 2 PInf = ''Infinity'' \<and> coord_text 2 NInf = ''-Infinity''"
proof -
  have m: "Cmd_Q (Fin (- 1)) (Fin (- 1)) (Fin 2) (Fin (3 / 2)) \<in> set (commands data_path)"
    by (simp add: data_path_def moveTo_def lineTo_def quadraticCurveTo_def closePath_def Path_def)
  have v1: "Fin (3 / 2) \<in> set (cmd_values (Cmd_Q (Fin (- 1)) (Fin (- 1)) (Fin 2) (Fin (3 / 2))))"
    and v2: "Fin (- 1) \<in> set (cmd_values (Cmd_Q (Fin (- 1)) (Fin (- 1)) (Fin 2) (Fin (3 / 2))))"
    by simp_all
  have h: "Cmd_M (Fin (15 * 10 ^ 20)) (Fin 0) \<in> set (commands huge_path)"
    by (simp add: huge_path_def moveTo_def Path_def)
  have v3: "Fin (15 * 10 ^ 20) \<in> set (cmd_values (Cmd_M (Fin (15 * 10 ^ 20)) (Fin 0)))"
    by simp
  have s: "commands special_path = [Cmd_M NaN NZero, Cmd_L PInf NInf]"
    by (simp add: special_path_def moveTo_def lineTo_def Path_def)
  have s1: "Cmd_M NaN NZero \<in> set (commands special_path)"
    and s2: "Cmd_L PInf NInf \<in> set (commands special_path)"
    by (simp_all add: s)
  have v4: "NaN \<in> set (cmd_values (Cmd_M NaN NZero))" and v5: "NZero \<in> set (cmd_values (Cmd_M NaN NZero))"
    and v6: "PInf \<in> set (cmd_values (Cmd_L PInf NInf))" and v7: "NInf \<in> set (cmd_values (Cmd_L PInf NInf))"
    by simp_all
  have f: "\<lfloor>3 / 2 :: rat\<rfloor> = 1"
    by simp
  have g: "\<lfloor>- 1 :: rat\<rfloor> = - 1"
    by (intro floor_unique) simp_all
  have e1: "\<exists>a b. coord_text 2 (Fin (3 / 2)) = a @ ''.'' @ b \<and> digit_string a \<and> length b = 2 \<and>
          list_all dec_digit b"
    using toPathData_number_format[OF data_path_text m v1, where q = "3 / 2"]
    by (simp add: places_def f)
  have e2: "coord_text 2 (Fin (- 1)) = ''-'' @ digits_of 1"
    using toPathData_number_format[OF data_path_text m v2, where q = "- 1"]
    by (simp add: places_def g)
  have e3: "\<exists>m e. coord_text 2 (Fin (15 * 10 ^ 20)) = m @ ''e+'' @ digits_of e \<and> mantissa m \<and> 21 \<le> e"
    using toPathData_number_format[OF huge_path_text h v3, where q = "15 * 10 ^ 20"]
    by (simp add: places_def)
  have e4: "coord_text 2 NaN = ''NaN''" "coord_text 2 NZero = ''0''"
    "coord_text 2 PInf = ''Infinity''" "coord_text 2 NInf = ''-Infinity''"
    using toPathData_number_format[OF special_path_text s1 v4]
      toPathData_number_format[OF special_path_text s1 v5]
      toPathData_number_format[OF special_path_text s2 v6]
      toPathData_number_format[OF special_path_text s2 v7]
    by (simp_all add: places_def)
  have c: "coord_text 2 (Fin (3 / 2)) = ''1.50''" "coord_text 2 (Fin (- 1)) = ''-1''"
    "coord_text 2 (Fin (15 * 10 ^ 20)) = ''1.5e+21''"
    using floatToString_huge[of 2]
    by (simp_all add: coord_text_def floatToString_small floatToString_three_halves)
  show ?thesis
    using data_path_text m e1 e2 e3 e4 c huge_path_text h special_path_text s by simp
qed

text \<open>
  Claim C7: in the text that \<open>toPathData\<close> returns, each command is its letter \<open>M\<close>, \<open>L\<close>,
  \<open>Q\<close>, \<open>C\<close> or \<open>Z\<close> followed at once by the texts of its coordinates, and a space goes
  before a coordinate if and only if that value is non-negative and is not the first
  value of the command; nothing else separates values. With \<open>decimalPlaces\<close> between 0
  and 100 \<open>toPathData\<close> does return.
\<close>

theorem toPathData_packing:
  "(toPathData decimalPlaces p = Inr d \<longrightarrow>
      d = concat (map (\<lambda>cmd. cmd_type cmd #
                    concat (map (\<lambda>(i, v). (if jge v (Fin 0) \<and> 0 < i then '' '' else []) @
                                           coord_text (places decimalPlaces) v)
                                (enumerate 0 (cmd_values cmd))))
                 (commands p)) \<and>
      (\<forall>cmd \<in> set (commands p). \<forall>v \<in> set (cmd_values cmd).
          floatToString (places decimalPlaces) v = Inr (coord_text (places decimalPlaces) v))) \<and>
   (0 \<le> places decimalPlaces \<and> places decimalPlaces \<le> 100 \<longrightarrow>
      toPathData decimalPlaces p = Inr (path_text (places decimalPlaces) (commands p)))"
proof (intro conjI impI)
  assume a: "toPathData decimalPlaces p = Inr d"
  then show "d = concat (map (\<lambda>cmd. cmd_type cmd #
                    concat (map (\<lambda>(i, v). (if jge v (Fin 0) \<and> 0 < i then '' '' else []) @
                                           coord_text (places decimalPlaces) v)
                                (enumerate 0 (cmd_values cmd))))
                 (commands p))"
    by (simp add: toPathData_Inr path_text_def pack_text_def)
  from a have ok: "\<forall>c \<in> set (commands p).
      list_all (\<lambda>v. \<not> isl (floatToString (places decimalPlaces) v)) (cmd_values c)"
    by (simp add: toPathData_Inr)
  show "\<forall>cmd \<in> set (commands p). \<forall>v \<in> set (cmd_values cmd).
          floatToString (places decimalPlaces) v = Inr (coord_text (places decimalPlaces) v)"
  proof (intro ballI)
    fix cmd v
    assume "cmd \<in> set (commands p)" "v \<in> set (cmd_values cmd)"
    with ok have "\<not> isl (floatToString (places decimalPlaces) v)"
      by (auto simp: list_all_iff)
    then show "floatToString (places decimalPlaces) v = Inr (coord_text (places decimalPlaces) v)"
      by (cases "floatToString (places decimalPlaces) v") (simp_all add: coord_text_def)
  qed
next
  assume "0 \<le> places decimalPlaces \<and> places decimalPlaces \<le> 100"
  then show "toPathData decimalPlaces p = Inr (path_text (places decimalPlaces) (commands p))"
    by (simp add: toPathData_Inr floatToString_total list_all_iff)
qed


theorem toPathData_packing_witness:
  "toPathData None data_path = Inr ''M1-2L3 0Q-1-1 2 1.50Z'' \<and>
   0 \<le> places None \<and> places None \<le> 100 \<and>
   commands data_path =
     [Cmd_M (Fin 1) (Fin (- 2)), Cmd_L (Fin 3) (Fin 0),
      Cmd_Q (Fin (- 1)) (Fin (- 1)) (Fin 2) (Fin (3 / 2)), Cmd_Z] \<and>
   path_text (places None) (commands data_path) = ''M1-2L3 0Q-1-1 2 1.50Z'' \<and>
   floatToString (places None) (Fin (3 / 2)) = Inr (coord_text (places None) (Fin (3 / 2)))"
  using toPathData_packing[of None data_path "''M1-2L3 0Q-1-1 2 1.50Z''"] data_path_text
  by (simp add: places_def data_path_def moveTo_def lineTo_def quadraticCurveTo_def closePath_def
        Path_def)

end
